theory Spec2Isabelle
  imports Main
begin

section \<open>The MQTT telemetry driver (azext\_iot/operations/\_mqtt.py)\<close>

subsection \<open>Exceptions, payloads and observable effects\<close>

text \<open>
  Every \<^verbatim>\<open>raise\<close> of the modelled code is a value of \<open>exn\<close>:
  \<^item> \<open>KeyError rc\<close>: the lookup \<^verbatim>\<open>connection_result[rc]\<close> with \<open>rc\<close> not a key;
  \<^item> \<open>ValueError\<close>: \<^verbatim>\<open>time.sleep\<close> called with a negative length;
  \<^item> \<open>OverflowError\<close>: \<^verbatim>\<open>time.sleep\<close> called with a length beyond the interpreter's
    timestamp range;
  \<^item> \<open>OSError\<close>: \<^verbatim>\<open>time.sleep\<close> called with a length the operating system rejects;
  \<^item> \<open>TransportError\<close>: a fault raised by \<^verbatim>\<open>client.publish\<close>;
  \<^item> \<open>DataError\<close>: an exception raised by the caller's \<^verbatim>\<open>data.generate\<close>;
  \<^item> \<open>CLIError msg\<close> and \<open>SystemExit msg\<close>: raised by the command handlers.
\<close>

datatype exn =
    KeyError int
  | ValueError
  | OverflowError
  | OSError
  | TransportError
  | DataError
  | CLIError string
  | SystemExit string

type_synonym payload = string

text \<open>
  The effects of the driver are recorded in two logs, one per thread: the network thread
  of the MQTT client runs the callbacks (they print and subscribe), the control thread
  runs \<^verbatim>\<open>execute\<close> (it starts and stops the network loop, publishes and sleeps).
  \<open>IsConnected b\<close> records the value a call of \<^verbatim>\<open>is_connected()\<close> returned.
\<close>

datatype event =
    Print string
  | Subscribe string
  | LoopStart
  | LoopStop
  | IsConnected bool
  | Publish string payload
  | Sleep int

subsection \<open>The driver object\<close>

text \<open>
  The fields of \<^verbatim>\<open>mqtt_client_wrap\<close> that its methods read or write after construction.
  \<open>loop_running\<close> is the state of the client's network thread: alive between
  \<^verbatim>\<open>client.loop_start()\<close> and \<^verbatim>\<open>client.loop_stop()\<close>.
\<close>

record mqtt_client_wrap =
  topic_publish :: string
  topic_receive :: string
  connected :: bool
  loop_running :: bool
  net_log :: "event list"
  ctl_log :: "event list"

text \<open>
  \<^verbatim>\<open>__init__\<close>: the two topics are formatted from the device id and the flag starts
  False. (The signed token, the TLS settings and the TCP connect of the constructor
  belong to the transport library and are not part of the state modelled here.)
\<close>

definition init :: "string \<Rightarrow> mqtt_client_wrap" where
  "init device_id =
     \<lparr> topic_publish = ''devices/'' @ device_id @ ''/messages/events/'',
       topic_receive = ''devices/'' @ device_id @ ''/messages/devicebound/#'',
       connected = False,
       loop_running = False,
       net_log = [],
       ctl_log = [] \<rparr>"

text \<open>The module-level table \<^verbatim>\<open>connection_result\<close>, a dictionary with six keys.\<close>

definition connection_result :: "int \<rightharpoonup> string" where
  "connection_result =
     map_of
       [(0, ''success''),
        (1, ''refused - incorrect protocol version''),
        (2, ''refused - invalid client id''),
        (3, ''refused - server unavailable''),
        (4, ''refused - bad username or password''),
        (5, ''refused - not authorized'')]"

text \<open>
  \<^verbatim>\<open>on_connect(self, client, userdata, flags, rc)\<close>. The dictionary lookup is the first
  thing evaluated, so a missing key raises before any effect. Otherwise the reason is
  printed, the device-bound topic is subscribed, a second line is printed and the flag
  is set, whatever \<open>rc\<close> was.
\<close>

definition on_connect :: "mqtt_client_wrap \<Rightarrow> int \<Rightarrow> exn + mqtt_client_wrap" where
  "on_connect self rc =
     (case connection_result rc of
        None \<Rightarrow> Inl (KeyError rc)
      | Some reason \<Rightarrow>
          Inr (self
            \<lparr> net_log := net_log self @
                 [Print (''Connected to target IoT Hub MQTT broker with result: '' @ reason),
                  Subscribe (topic_receive self),
                  Print ''Subscribed to device bound message queue''],
              connected := True \<rparr>))"

text \<open>
  The payload of a message is a bytes object, and \<^verbatim>\<open>"{}".format(payload)\<close> is its
  \<^verbatim>\<open>repr\<close>: the letter b and the bytes between quotes, double quotes when the payload has
  a single quote and no double quote. The quote in use and the backslash are escaped
  with a backslash; tab, newline and carriage return are written \<^verbatim>\<open>\t\<close>, \<^verbatim>\<open>\n\<close>,
  \<^verbatim>\<open>\r\<close>; any other byte below 32 or from 127 up is written \<^verbatim>\<open>\xhh\<close>.
\<close>

definition hex_digit :: "nat \<Rightarrow> char" where
  "hex_digit n = (if n < 10 then char_of (48 + n) else char_of (87 + n))"

definition repr_byte :: "char \<Rightarrow> char \<Rightarrow> string" where
  "repr_byte quote c =
     (if c = quote \<or> c = CHR 0x5C then [CHR 0x5C, c]
      else if c = CHR 0x09 then [CHR 0x5C, CHR ''t'']
      else if c = CHR 0x0A then [CHR 0x5C, CHR ''n'']
      else if c = CHR 0x0D then [CHR 0x5C, CHR ''r'']
      else if (of_char c :: nat) < 32 \<or> 127 \<le> (of_char c :: nat) then
        [CHR 0x5C, CHR ''x'', hex_digit (of_char c div 16), hex_digit (of_char c mod 16)]
      else [c])"

definition repr_bytes :: "payload \<Rightarrow> string" where
  "repr_bytes pl =
     (let quote = (if CHR 0x27 \<in> set pl \<and> CHR 0x22 \<notin> set pl then CHR 0x22 else CHR 0x27)
      in [CHR ''b'', quote] @ concat (map (repr_byte quote) pl) @ [quote])"

text \<open>\<^verbatim>\<open>on_message\<close> prints an empty line, the topic and the payload.\<close>

definition on_message :: "mqtt_client_wrap \<Rightarrow> string \<Rightarrow> payload \<Rightarrow> mqtt_client_wrap" where
  "on_message self topic pl =
     self \<lparr> net_log := net_log self @
              [Print '''',
               Print (''_Received C2D message with topic_: '' @ topic),
               Print (''_Payload_: '' @ repr_bytes pl)] \<rparr>"

text \<open>\<^verbatim>\<open>on_publish\<close> prints a dot.\<close>

definition on_publish :: "mqtt_client_wrap \<Rightarrow> mqtt_client_wrap" where
  "on_publish self = self \<lparr> net_log := net_log self @ [Print ''.''] \<rparr>"

definition is_connected :: "mqtt_client_wrap \<Rightarrow> bool" where
  "is_connected self = connected self"

subsection \<open>The transport library and the caller's data source\<close>

text \<open>
  What the network thread does while it runs: it calls back into the driver, once per
  packet it handles.
\<close>

datatype io_event =
    ConnAck int
  | Inbound string payload
  | PubAck

text \<open>
  An exception raised by a callback stays on the network thread: it never reaches
  \<^verbatim>\<open>execute\<close>, and the fields of the driver are as they were before the call.
\<close>

fun callback :: "mqtt_client_wrap \<Rightarrow> io_event \<Rightarrow> mqtt_client_wrap" where
  "callback self (ConnAck rc) = (case on_connect self rc of Inl e \<Rightarrow> self | Inr self' \<Rightarrow> self')"
| "callback self (Inbound topic pl) = on_message self topic pl"
| "callback self PubAck = on_publish self"

text \<open>The network thread runs callbacks only while the loop is started.\<close>

definition io_thread :: "io_event list \<Rightarrow> mqtt_client_wrap \<Rightarrow> mqtt_client_wrap" where
  "io_thread evs self = (if loop_running self then foldl callback self evs else self)"

text \<open>
  The environment of one call of \<^verbatim>\<open>execute\<close>. The only field shared by the two
  threads is \<open>connected\<close>, which the control thread reads once per iteration, so the
  interleaving is given per iteration: \<open>io E i\<close> are the packets the network thread
  handles between the previous read of the flag and the read of iteration \<open>i\<close>, and
  \<open>publish_fault E i\<close> says whether the transport raises in the publish call of
  iteration \<open>i\<close>. \<open>sleep_rejected E secs\<close> says whether the operating system refuses to
  sleep for \<open>secs\<close> seconds (the largest length it takes depends on the platform).
  Signals that interrupt the control thread and the exhaustion of memory or threads are
  not part of the environment.
\<close>

record env =
  io :: "nat \<Rightarrow> io_event list"
  publish_fault :: "nat \<Rightarrow> bool"
  sleep_rejected :: "int \<Rightarrow> bool"

text \<open>
  The caller's \<^verbatim>\<open>data\<close> object, seen through \<^verbatim>\<open>data.generate(True)\<close>: the
  \<open>k\<close>-th call from now on returns a payload or raises. \<open>generate\<close> is one call; the
  object it returns has moved on by one.
\<close>

type_synonym data = "nat \<Rightarrow> exn + payload"

definition generate :: "data \<Rightarrow> exn + (payload \<times> data)" where
  "generate d = (case d 0 of Inl e \<Rightarrow> Inl e | Inr pl \<Rightarrow> Inr (pl, \<lambda>k. d (Suc k)))"

text \<open>A finite stream: its items in order, then every further call raises.\<close>

definition stream_of :: "payload list \<Rightarrow> data" where
  "stream_of xs = (\<lambda>k. if k < length xs then Inr (xs ! k) else Inl DataError)"

text \<open>
  \<^verbatim>\<open>time.sleep(secs)\<close> with an integer length. The length is first converted to a
  timestamp of 64-bit nanoseconds, which raises \<open>OverflowError\<close> beyond 9223372036
  seconds either way; then a negative length raises \<open>ValueError\<close>; then the
  operating system may reject the length (\<open>OSError\<close>); otherwise the call blocks for
  that long.
\<close>

definition sleep :: "env \<Rightarrow> int \<Rightarrow> mqtt_client_wrap \<Rightarrow> exn + mqtt_client_wrap" where
  "sleep E secs self =
     (if secs < - 9223372036 \<or> 9223372036 < secs then Inl OverflowError
      else if secs < 0 then Inl ValueError
      else if sleep_rejected E secs then Inl OSError
      else Inr (self \<lparr> ctl_log := ctl_log self @ [Sleep secs] \<rparr>))"

text \<open>
  \<^verbatim>\<open>client.publish(topic, payload)\<close>: the call is recorded; with a transport fault it
  raises.
\<close>

definition publish ::
  "bool \<Rightarrow> string \<Rightarrow> payload \<Rightarrow> mqtt_client_wrap \<Rightarrow> exn option \<times> mqtt_client_wrap" where
  "publish fault topic pl self =
     (if fault then Some TransportError else None,
      self \<lparr> ctl_log := ctl_log self @ [Publish topic pl] \<rparr>)"

text \<open>\<^verbatim>\<open>client.loop_start()\<close> and \<^verbatim>\<open>client.loop_stop()\<close>.\<close>

definition loop_start :: "mqtt_client_wrap \<Rightarrow> mqtt_client_wrap" where
  "loop_start self = self \<lparr> loop_running := True, ctl_log := ctl_log self @ [LoopStart] \<rparr>"

definition loop_stop :: "mqtt_client_wrap \<Rightarrow> mqtt_client_wrap" where
  "loop_stop self = self \<lparr> loop_running := False, ctl_log := ctl_log self @ [LoopStop] \<rparr>"

subsection \<open>The publish loop\<close>

text \<open>
  The variables of the body of \<^verbatim>\<open>execute\<close>: the counter \<open>msgs\<close>, the data object
  and the driver; \<open>tick\<close> counts the iterations begun (it indexes the environment).
\<close>

record loop_state =
  msgs :: int
  tick :: nat
  dat :: data
  drv :: mqtt_client_wrap

datatype outcome = Continue loop_state | Break loop_state | Raise exn loop_state

fun state_of :: "outcome \<Rightarrow> loop_state" where
  "state_of (Continue s) = s"
| "state_of (Break s) = s"
| "state_of (Raise e s) = s"

text \<open>
  One pass through the body of \<^verbatim>\<open>while True\<close>:
  \<^verbatim>\<open>
  if self.is_connected():
      if msgs < msg_count:
          msgs += 1
          self.client.publish(self.topic_publish, data.generate(True))
      else:
          break
  sleep(publish_delay)
  \<close>
  The argument of \<^verbatim>\<open>publish\<close> is evaluated before the call, and \<open>msgs\<close> is already
  incremented when either of them raises.
\<close>

definition iteration :: "env \<Rightarrow> int \<Rightarrow> int \<Rightarrow> loop_state \<Rightarrow> outcome" where
  "iteration E publish_delay msg_count s =
     (let i = tick s;
          self0 = io_thread (io E i) (drv s);
          gate = is_connected self0;
          self1 = self0 \<lparr> ctl_log := ctl_log self0 @ [IsConnected gate] \<rparr>;
          s1 = s \<lparr> tick := Suc i, drv := self1 \<rparr>
      in
      if gate then
        if msgs s1 < msg_count then
          (let s2 = s1 \<lparr> msgs := msgs s1 + 1 \<rparr> in
           case generate (dat s2) of
             Inl e \<Rightarrow> Raise e s2
           | Inr (pl, dat') \<Rightarrow>
               (case publish (publish_fault E i) (topic_publish self1) pl self1 of
                  (Some e, self2) \<Rightarrow> Raise e (s2 \<lparr> dat := dat', drv := self2 \<rparr>)
                | (None, self2) \<Rightarrow>
                    (case sleep E publish_delay self2 of
                       Inl e \<Rightarrow> Raise e (s2 \<lparr> dat := dat', drv := self2 \<rparr>)
                     | Inr self3 \<Rightarrow> Continue (s2 \<lparr> dat := dat', drv := self3 \<rparr>))))
        else Break s1
      else
        (case sleep E publish_delay self1 of
           Inl e \<Rightarrow> Raise e s1
         | Inr self2 \<Rightarrow> Continue (s1 \<lparr> drv := self2 \<rparr>)))"

text \<open>
  \<open>after E pd mc n s\<close>: where the loop is after at most \<open>n\<close> iterations from \<open>s\<close>.
  \<open>Continue\<close> means that \<open>n\<close> iterations ran and the loop goes on.
\<close>

fun after :: "env \<Rightarrow> int \<Rightarrow> int \<Rightarrow> nat \<Rightarrow> loop_state \<Rightarrow> outcome" where
  "after E publish_delay msg_count 0 s = Continue s"
| "after E publish_delay msg_count (Suc n) s =
     (case iteration E publish_delay msg_count s of
        Continue s' \<Rightarrow> after E publish_delay msg_count n s'
      | Break s' \<Rightarrow> Break s'
      | Raise e s' \<Rightarrow> Raise e s')"

text \<open>
  The loop \<^verbatim>\<open>while True\<close> itself. It need not end (nothing bounds the wait for the
  connection), so it is a partial function: \<open>None\<close> is a loop that runs forever.
\<close>

partial_function (option) while_True ::
  "env \<Rightarrow> int \<Rightarrow> int \<Rightarrow> loop_state \<Rightarrow> (exn option \<times> loop_state) option" where
  "while_True E publish_delay msg_count s =
     (case iteration E publish_delay msg_count s of
        Continue s' \<Rightarrow> while_True E publish_delay msg_count s'
      | Break s' \<Rightarrow> Some (None, s')
      | Raise e s' \<Rightarrow> Some (Some e, s'))"

declare while_True.simps [code]

text \<open>
  \<^verbatim>\<open>execute(self, data, publish_delay, msg_count)\<close>: the counter starts at 0, the
  network loop is started, the loop runs; the \<^verbatim>\<open>except\<close> clause re-raises what it
  caught, and the \<^verbatim>\<open>finally\<close> clause stops the network loop on the way out. The
  result is the exception that leaves \<^verbatim>\<open>execute\<close>, if any, and the driver.
\<close>

definition execute ::
  "env \<Rightarrow> data \<Rightarrow> int \<Rightarrow> int \<Rightarrow> mqtt_client_wrap \<Rightarrow> (exn option \<times> mqtt_client_wrap) option" where
  "execute E data publish_delay msg_count self =
     (case while_True E publish_delay msg_count
             \<lparr> msgs = 0, tick = 0, dat = data, drv = loop_start self \<rparr> of
        None \<Rightarrow> None
      | Some (r, s) \<Rightarrow> Some (r, loop_stop (drv s)))"

section \<open>The event monitor of IoT Central (azext\_iot/operations/central.py)\<close>

subsection \<open>The version check (azext\_iot/common/utility.py)\<close>

fun str_nat :: "nat \<Rightarrow> string" where
  "str_nat n =
     (if n < 10 then [char_of (48 + n)]
      else str_nat (n div 10) @ [char_of (48 + n mod 10)])"

text \<open>
  \<^verbatim>\<open>validate_min_python_version(major, minor, error_msg=None, exit_on_fail=True)\<close>,
  with \<^verbatim>\<open>sys.version_info\<close> as the first argument. \<^verbatim>\<open>sys.exit(msg)\<close> raises
  \<open>SystemExit\<close>; an empty \<open>error_msg\<close> is falsy, like \<open>None\<close>.
\<close>

definition validate_min_python_version ::
  "nat \<times> nat \<Rightarrow> nat \<Rightarrow> nat \<Rightarrow> string option \<Rightarrow> bool \<Rightarrow> exn + bool" where
  "validate_min_python_version version major minor error_msg exit_on_fail =
     (if fst version > major then Inr True
      else
        (let result = (if major = fst version then snd version \<ge> minor else False) in
         if \<not> result \<and> exit_on_fail then
           Inl (SystemExit
             (case error_msg of
                None \<Rightarrow> ''Python version '' @ str_nat major @ ''.'' @ str_nat minor @
                          '' or higher required for this functionality.''
              | Some m \<Rightarrow>
                  if m = [] then
                    ''Python version '' @ str_nat major @ ''.'' @ str_nat minor @
                    '' or higher required for this functionality.''
                  else m))
         else Inr result))"

subsection \<open>The command handler\<close>

text \<open>The keyword arguments of the call \<^verbatim>\<open>events3.executor(...)\<close>.\<close>

record executor_args =
  arg_consumer_group :: string
  arg_enqueued_time :: int
  arg_central_target :: string
  arg_properties :: "string list"
  arg_timeout :: int
  arg_device_id :: "string option"
  arg_output :: string

text \<open>The calls the handler makes to its collaborators, in order.\<close>

datatype call =
    EnsureUamqp bool
  | GetTarget string
  | Executor executor_args

text \<open>
  What happens while the executor runs: a record arrives on some partition, or the
  caller cancels, each after so many milliseconds in which no record was received.
  After the last event of the list nothing happens any more: no record, no cancellation.
\<close>

datatype monitor_event = Arrives nat | Cancels nat

datatype ending = TimedOut | Cancelled

text \<open>
  Modelled from the spec: \<^verbatim>\<open>events3.executor\<close> (azext\_iot/operations/events3/\_events.py
  is not among the sources), as far as its timeout goes. The specification says of the
  consumer: "The sequence is infinite until either: (a) \<^verbatim>\<open>timeoutMs\<close> elapses with no
  record received on any partition (treated as end-of-stream, not error), or (b) the
  caller cancels. \<^verbatim>\<open>timeoutMs == 0\<close> means wait forever (only external cancellation ends
  the sequence)." The result is the number of records received and the way the sequence
  ended; \<open>None\<close> is a sequence that never ends.
\<close>

fun executor :: "executor_args \<Rightarrow> monitor_event list \<Rightarrow> (nat \<times> ending) option" where
  "executor a [] = (if arg_timeout a = 0 then None else Some (0, TimedOut))"
| "executor a (Arrives gap # evs) =
     (if arg_timeout a \<noteq> 0 \<and> arg_timeout a \<le> int gap then Some (0, TimedOut)
      else map_option (\<lambda>(n, e). (Suc n, e)) (executor a evs))"
| "executor a (Cancels gap # evs) =
     (if arg_timeout a \<noteq> 0 \<and> arg_timeout a \<le> int gap then Some (0, TimedOut)
      else Some (0, Cancelled))"

text \<open>
  What the handler reads from outside: the interpreter's version, the output format of
  the invocation, the clock (the value \<^verbatim>\<open>_calculate_millisec_since_unix_epoch_utc()\<close>
  returns: milliseconds since the epoch), what \<^verbatim>\<open>ensure_uamqp\<close> does when called (it
  returns or raises), what \<^verbatim>\<open>get_event_hub_target_from_central_app_id\<close> does (it
  returns a target or raises), and what happens while the executor runs.
\<close>

record cli_env =
  version_info :: "nat \<times> nat"
  invocation_output :: "string option"
  utcnow_ms :: int
  ensure_uamqp :: "exn option"
  get_event_hub_target_from_central_app_id :: "string \<Rightarrow> exn + string"
  monitor_events :: "monitor_event list"

text \<open>
  \<^verbatim>\<open>iot_central_monitor_events(cmd, app_id, device_id, consumer_group, timeout,
  repair_uamqp, enqueued_time, properties)\<close>. The result is how the handler ends and the
  calls it has made: \<open>Inl e\<close> when the exception \<open>e\<close> leaves it, \<open>Inr\<close> of what the
  executor did when the executor was called (\<open>Inr None\<close>: the call never returns).
  \<^verbatim>\<open>not output\<close>, \<^verbatim>\<open>not properties\<close> and \<^verbatim>\<open>not enqueued_time\<close> are Python truth
  tests: \<open>None\<close>, the empty string, the empty list and 0 are falsy.
\<close>

definition iot_central_monitor_events ::
  "cli_env \<Rightarrow> string \<Rightarrow> string option \<Rightarrow> string \<Rightarrow> int \<Rightarrow> bool \<Rightarrow> int option \<Rightarrow>
   string list option \<Rightarrow> (exn + (nat \<times> ending) option) \<times> call list" where
  "iot_central_monitor_events cmd app_id device_id consumer_group timeout repair_uamqp
       enqueued_time properties =
     (case validate_min_python_version (version_info cmd) 3 5 None True of
        Inl e \<Rightarrow> (Inl e, [])
      | Inr _ \<Rightarrow>
          if timeout < 0 then (Inl (CLIError ''Monitoring timeout must be 0 (inf) or greater.''), [])
          else
            (let timeout1 = timeout * 1000;
                 output = (case invocation_output cmd of
                             None \<Rightarrow> ''json''
                           | Some out \<Rightarrow> if out = [] then ''json'' else out);
                 calls1 = [EnsureUamqp repair_uamqp]
             in
             case ensure_uamqp cmd of
               Some e \<Rightarrow> (Inl e, calls1)
             | None \<Rightarrow>
                 (let properties1 = (case properties of None \<Rightarrow> [] | Some ps \<Rightarrow> ps);
                      enqueued_time1 =
                        (case enqueued_time of
                           None \<Rightarrow> utcnow_ms cmd
                         | Some t \<Rightarrow> if t = 0 then utcnow_ms cmd else t);
                      calls2 = calls1 @ [GetTarget app_id]
                  in
                  case get_event_hub_target_from_central_app_id cmd app_id of
                    Inl e \<Rightarrow> (Inl e, calls2)
                  | Inr target \<Rightarrow>
                      (let args =
                            \<lparr> arg_consumer_group = consumer_group,
                              arg_enqueued_time = enqueued_time1,
                              arg_central_target = target,
                              arg_properties = properties1,
                              arg_timeout = timeout1,
                              arg_device_id = device_id,
                              arg_output = output \<rparr>
                       in (Inr (executor args (monitor_events cmd)), calls2 @ [Executor args])))))"

section \<open>Reading the logs\<close>

text \<open>The publish calls of a log, in order: topic and payload.\<close>

fun publishes :: "event list \<Rightarrow> (string \<times> payload) list" where
  "publishes [] = []"
| "publishes (Publish topic pl # evs) = (topic, pl) # publishes evs"
| "publishes (ev # evs) = publishes evs"

text \<open>The time a log spends asleep: the sum of its sleep lengths.\<close>

fun slept :: "event list \<Rightarrow> int" where
  "slept [] = 0"
| "slept (Sleep secs # evs) = secs + slept evs"
| "slept (ev # evs) = slept evs"

text \<open>The exception \<^verbatim>\<open>time.sleep\<close> raises for a length, if any.\<close>

definition sleep_error :: "env \<Rightarrow> int \<Rightarrow> exn option" where
  "sleep_error E secs =
     (if secs < - 9223372036 \<or> 9223372036 < secs then Some OverflowError
      else if secs < 0 then Some ValueError
      else if sleep_rejected E secs then Some OSError
      else None)"

text \<open>
  The payloads a data object hands out in its next \<open>m\<close> calls, up to the first call
  that raises: the stream items available to a loop that asks at most \<open>m\<close> times.
\<close>

fun items :: "data \<Rightarrow> nat \<Rightarrow> payload list" where
  "items d 0 = []"
| "items d (Suc m) =
     (case d 0 of Inl e \<Rightarrow> [] | Inr pl \<Rightarrow> pl # items (\<lambda>k. d (Suc k)) m)"

text \<open>
  A log is gated when each of its publish calls comes right after a call of
  \<^verbatim>\<open>is_connected()\<close> that returned True.
\<close>

definition gated :: "event list \<Rightarrow> bool" where
  "gated evs \<longleftrightarrow>
     (\<forall>pre t p post. evs = pre @ Publish t p # post \<longrightarrow> (\<exists>pre'. pre = pre' @ [IsConnected True]))"


text \<open>
  What a loop that returns has done, from the state \<open>s\<close> on: it has published the
  items the data object had for the messages still to send, in order, and it has ended
  normally exactly when none was missing, and otherwise by the exception of the data
  object.
\<close>

definition finishes :: "env \<Rightarrow> int \<Rightarrow> int \<Rightarrow> loop_state \<Rightarrow> bool" where
  "finishes E pd mc s \<longleftrightarrow>
     (\<exists>r s'. while_True E pd mc s = Some (r, s') \<and>
        publishes (ctl_log (drv s')) =
          publishes (ctl_log (drv s)) @
          map (Pair (topic_publish (drv s))) (items (dat s) (nat (mc - msgs s))) \<and>
        (r = None \<longleftrightarrow> length (items (dat s) (nat (mc - msgs s))) = nat (mc - msgs s)) \<and>
        (\<forall>e. r = Some e \<longrightarrow> dat s (length (items (dat s) (nat (mc - msgs s)))) = Inl e))"

text \<open>The state in which \<^verbatim>\<open>execute\<close> enters its loop.\<close>

abbreviation entry :: "data \<Rightarrow> mqtt_client_wrap \<Rightarrow> loop_state" where
  "entry data self \<equiv> \<lparr> msgs = 0, tick = 0, dat = data, drv = loop_start self \<rparr>"

text \<open>
  Three environments: a broker that accepts the handshake at once, one that refuses
  it (not authorized), and one that never answers; the platform sleeps for any length
  within the timestamp range.
\<close>

definition accepting :: env where
  "accepting =
     \<lparr> io = (\<lambda>i. if i = 0 then [ConnAck 0] else []),
       publish_fault = (\<lambda>i. False),
       sleep_rejected = (\<lambda>secs. False) \<rparr>"

definition refusing :: env where
  "refusing =
     \<lparr> io = (\<lambda>i. if i = 0 then [ConnAck 5] else []),
       publish_fault = (\<lambda>i. False),
       sleep_rejected = (\<lambda>secs. False) \<rparr>"

definition silent :: env where
  "silent =
     \<lparr> io = (\<lambda>i. []),
       publish_fault = (\<lambda>i. False),
       sleep_rejected = (\<lambda>secs. False) \<rparr>"

text \<open>A broker that accepts the handshake and whose transport fails in iteration 1.\<close>

definition faulty :: env where
  "faulty =
     \<lparr> io = (\<lambda>i. if i = 0 then [ConnAck 0] else []),
       publish_fault = (\<lambda>i. i = 1),
       sleep_rejected = (\<lambda>secs. False) \<rparr>"

text \<open>
  The driver after the scenario of the specification: an accepting broker, the stream
  a, b, no delay, two messages.
\<close>

definition delivered :: mqtt_client_wrap where
  "delivered =
     \<lparr> topic_publish = ''devices/dev/messages/events/'',
       topic_receive = ''devices/dev/messages/devicebound/#'',
       connected = True,
       loop_running = False,
       net_log =
         [Print ''Connected to target IoT Hub MQTT broker with result: success'',
          Subscribe ''devices/dev/messages/devicebound/#'',
          Print ''Subscribed to device bound message queue''],
       ctl_log =
         [LoopStart,
          IsConnected True, Publish ''devices/dev/messages/events/'' ''a'', Sleep 0,
          IsConnected True, Publish ''devices/dev/messages/events/'' ''b'', Sleep 0,
          IsConnected True,
          LoopStop] \<rparr>"

text \<open>
  The driver after the same call against a transport that fails in the second publish.
\<close>

definition aborted :: mqtt_client_wrap where
  "aborted =
     \<lparr> topic_publish = ''devices/dev/messages/events/'',
       topic_receive = ''devices/dev/messages/devicebound/#'',
       connected = True,
       loop_running = False,
       net_log =
         [Print ''Connected to target IoT Hub MQTT broker with result: success'',
          Subscribe ''devices/dev/messages/devicebound/#'',
          Print ''Subscribed to device bound message queue''],
       ctl_log =
         [LoopStart,
          IsConnected True, Publish ''devices/dev/messages/events/'' ''a'', Sleep 0,
          IsConnected True, Publish ''devices/dev/messages/events/'' ''b'',
          LoopStop] \<rparr>"

text \<open>
  An invocation of the monitor on a supported interpreter, with collaborators that
  answer, on an event log that never produces a record, with a caller who never cancels.
\<close>

definition console :: cli_env where
  "console =
     \<lparr> version_info = (3, 7),
       invocation_output = None,
       utcnow_ms = 1700000000000,
       ensure_uamqp = None,
       get_event_hub_target_from_central_app_id = (\<lambda>app_id. Inr (''eventhub-of-'' @ app_id)),
       monitor_events = [] \<rparr>"

text \<open>
  The same invocation on an event log that produces one record after half a second,
  with a caller who cancels a minute later.
\<close>

definition watched :: cli_env where
  "watched = console \<lparr> monitor_events := [Arrives 500, Cancels 60000] \<rparr>"

section \<open>The network thread\<close>

lemma callback_ctl [simp]:
  "ctl_log (callback self ev) = ctl_log self"
  "topic_publish (callback self ev) = topic_publish self"
  "loop_running (callback self ev) = loop_running self"
  by (cases ev; simp add: on_connect_def on_message_def on_publish_def split: option.split)+

lemma callback_connected: "connected self \<Longrightarrow> connected (callback self ev)"
  by (cases ev) (simp_all add: on_connect_def on_message_def on_publish_def split: option.split)

lemma foldl_callback_ctl [simp]:
  "ctl_log (foldl callback self evs) = ctl_log self"
  "topic_publish (foldl callback self evs) = topic_publish self"
  "loop_running (foldl callback self evs) = loop_running self"
  by (induction evs arbitrary: self; simp)+

lemma foldl_callback_connected: "connected self \<Longrightarrow> connected (foldl callback self evs)"
  by (induction evs arbitrary: self) (simp_all add: callback_connected)

lemma io_thread_ctl [simp]:
  "ctl_log (io_thread evs self) = ctl_log self"
  "topic_publish (io_thread evs self) = topic_publish self"
  "loop_running (io_thread evs self) = loop_running self"
  by (simp_all add: io_thread_def)

lemma io_thread_connected: "connected self \<Longrightarrow> connected (io_thread evs self)"
  by (simp add: io_thread_def foldl_callback_connected)

lemma dom_connection_result: "dom connection_result = {0, 1, 2, 3, 4, 5}"
  by (auto simp: connection_result_def dom_def split: if_splits)

lemma connection_result_in: "rc \<in> {0..5} \<Longrightarrow> \<exists>reason. connection_result rc = Some reason"
  using dom_connection_result by (auto simp: dom_def)

lemma connection_result_out: "rc \<notin> {0..5} \<Longrightarrow> connection_result rc = None"
  by (auto simp: connection_result_def)

lemma callback_ConnAck_connected:
  "rc \<in> {0..5} \<Longrightarrow> connected (callback self (ConnAck rc))"
  using connection_result_in[of rc] by (auto simp: on_connect_def)

lemma foldl_callback_ConnAck:
  "ConnAck rc \<in> set evs \<Longrightarrow> rc \<in> {0..5} \<Longrightarrow> connected (foldl callback self evs)"
proof (induction evs arbitrary: self)
  case Nil
  then show ?case by simp
next
  case (Cons ev evs)
  show ?case
  proof (cases "ev = ConnAck rc")
    case True
    have "connected (callback self (ConnAck rc))"
      using Cons.prems(2) by (rule callback_ConnAck_connected)
    then have "connected (callback self ev)"
      using True by (simp del: callback.simps)
    then show ?thesis by (simp add: foldl_callback_connected)
  next
    case False
    then have "ConnAck rc \<in> set evs" using Cons.prems(1) by simp
    then show ?thesis using Cons.IH Cons.prems(2) by simp
  qed
qed

lemma io_thread_ConnAck:
  "loop_running self \<Longrightarrow> ConnAck rc \<in> set evs \<Longrightarrow> rc \<in> {0..5} \<Longrightarrow> connected (io_thread evs self)"
  by (simp add: io_thread_def foldl_callback_ConnAck)



section \<open>The connect callback\<close>

text \<open>
  C9. A result code outside the table 0..5 makes \<^verbatim>\<open>on_connect\<close> raise
  \<open>KeyError\<close> at the lookup of the reason, before anything is printed or set: the
  driver is as it was. For a code inside the table the line printed carries exactly
  the table's entry for that code.
\<close>

theorem on_connect_reason:
  "(rc \<notin> {0..5} \<longrightarrow>
      on_connect self rc = Inl (KeyError rc) \<and> callback self (ConnAck rc) = self) \<and>
   (rc \<in> {0..5} \<longrightarrow>
      (\<exists>reason. connection_result rc = Some reason \<and>
         (\<exists>self'. on_connect self rc = Inr self' \<and>
            net_log self' = net_log self @
              [Print (''Connected to target IoT Hub MQTT broker with result: '' @ reason),
               Subscribe (topic_receive self),
               Print ''Subscribed to device bound message queue''])))"
proof (intro conjI impI)
  assume out: "rc \<notin> {0..5}"
  then have "connection_result rc = None" by (rule connection_result_out)
  then show "on_connect self rc = Inl (KeyError rc)" by (simp add: on_connect_def)
  then show "callback self (ConnAck rc) = self" by simp
next
  assume "rc \<in> {0..5}"
  then obtain reason where "connection_result rc = Some reason"
    using connection_result_in by blast
  then show "\<exists>reason. connection_result rc = Some reason \<and>
         (\<exists>self'. on_connect self rc = Inr self' \<and>
            net_log self' = net_log self @
              [Print (''Connected to target IoT Hub MQTT broker with result: '' @ reason),
               Subscribe (topic_receive self),
               Print ''Subscribed to device bound message queue''])"
    by (simp add: on_connect_def)
qed

theorem on_connect_reason_witness:
  "(7::int) \<notin> {0..5} \<and> on_connect (init ''dev'') 7 = Inl (KeyError 7) \<and>
   (4::int) \<in> {0..5} \<and> connection_result 4 = Some ''refused - bad username or password'' \<and>
   (\<exists>self'. on_connect (init ''dev'') 4 = Inr self' \<and>
      net_log self' =
        [Print ''Connected to target IoT Hub MQTT broker with result: refused - bad username or password'',
         Subscribe ''devices/dev/messages/devicebound/#'',
         Print ''Subscribed to device bound message queue''])"
  using on_connect_reason [of 7 "init ''dev''"] on_connect_reason [of 4 "init ''dev''"]
  by (simp add: connection_result_def init_def)


text \<open>
  C1. The callback at the result code 5 ("refused - not authorized"): it prints the
  refusal, subscribes, and sets the flag all the same, so \<^verbatim>\<open>is_connected()\<close>
  is True after a refused handshake. Against a broker that refuses the handshake
  \<^verbatim>\<open>execute\<close> then publishes its two messages and returns with the flag set.
\<close>

theorem on_connect_refused_sets_connected:
  "on_connect self 5 =
     Inr (self
       \<lparr> net_log := net_log self @
            [Print ''Connected to target IoT Hub MQTT broker with result: refused - not authorized'',
             Subscribe (topic_receive self),
             Print ''Subscribed to device bound message queue''],
         connected := True \<rparr>) \<and>
   is_connected (callback self (ConnAck 5)) \<and>
   map_option (\<lambda>(r, self'). (r, connected self', publishes (ctl_log self')))
       (execute refusing (stream_of [''a'', ''b'']) 0 2 (init ''dev'')) =
     Some (None, True,
       [(''devices/dev/messages/events/'', ''a''), (''devices/dev/messages/events/'', ''b'')])"
proof -
  have "map_option (\<lambda>(r, self'). (r, connected self', publishes (ctl_log self')))
       (execute refusing (stream_of [''a'', ''b'']) 0 2 (init ''dev'')) =
     Some (None, True,
       [(''devices/dev/messages/events/'', ''a''), (''devices/dev/messages/events/'', ''b'')])"
    by (simp add: execute_def refusing_def init_def loop_start_def loop_stop_def
        while_True.simps iteration_def io_thread_def on_connect_def connection_result_def
        is_connected_def generate_def stream_of_def publish_def sleep_def)
  then show ?thesis
    by (simp add: on_connect_def connection_result_def is_connected_def)
qed

section \<open>The publish loop, one iteration at a time\<close>

text \<open>The seven ways through the body of the loop.\<close>

lemma sleep_eq:
  "sleep E secs self =
     (case sleep_error E secs of
        Some e \<Rightarrow> Inl e
      | None \<Rightarrow> Inr (self \<lparr> ctl_log := ctl_log self @ [Sleep secs] \<rparr>))"
  by (simp add: sleep_def sleep_error_def)

lemma sleep_error_None:
  "sleep_error E secs = None \<longleftrightarrow> 0 \<le> secs \<and> secs \<le> 9223372036 \<and> \<not> sleep_rejected E secs"
  by (auto simp: sleep_error_def)

lemma iteration_cases [case_names wait wait_raise break gen_raise pub_raise sleep_raise sent]:
  fixes E pd mc s
  defines "self0 \<equiv> io_thread (io E (tick s)) (drv s)"
  assumes
    "\<lbrakk>\<not> connected self0; sleep_error E pd = None;
      iteration E pd mc s =
        Continue (s \<lparr> tick := Suc (tick s),
                      drv := self0 \<lparr> ctl_log := ctl_log (drv s) @ [IsConnected False, Sleep pd] \<rparr> \<rparr>)\<rbrakk>
     \<Longrightarrow> thesis"
    "\<And>e. \<lbrakk>\<not> connected self0; sleep_error E pd = Some e;
      iteration E pd mc s =
        Raise e (s \<lparr> tick := Suc (tick s),
                      drv := self0 \<lparr> ctl_log := ctl_log (drv s) @ [IsConnected False] \<rparr> \<rparr>)\<rbrakk>
     \<Longrightarrow> thesis"
    "\<lbrakk>connected self0; \<not> msgs s < mc;
      iteration E pd mc s =
        Break (s \<lparr> tick := Suc (tick s),
                   drv := self0 \<lparr> ctl_log := ctl_log (drv s) @ [IsConnected True] \<rparr> \<rparr>)\<rbrakk>
     \<Longrightarrow> thesis"
    "\<And>e. \<lbrakk>connected self0; msgs s < mc; dat s 0 = Inl e;
      iteration E pd mc s =
        Raise e (s \<lparr> msgs := msgs s + 1, tick := Suc (tick s),
                     drv := self0 \<lparr> ctl_log := ctl_log (drv s) @ [IsConnected True] \<rparr> \<rparr>)\<rbrakk>
     \<Longrightarrow> thesis"
    "\<And>pl. \<lbrakk>connected self0; msgs s < mc; dat s 0 = Inr pl; publish_fault E (tick s);
      iteration E pd mc s =
        Raise TransportError
          (s \<lparr> msgs := msgs s + 1, tick := Suc (tick s), dat := (\<lambda>k. dat s (Suc k)),
               drv := self0 \<lparr> ctl_log := ctl_log (drv s) @
                         [IsConnected True, Publish (topic_publish (drv s)) pl] \<rparr> \<rparr>)\<rbrakk>
     \<Longrightarrow> thesis"
    "\<And>pl e. \<lbrakk>connected self0; msgs s < mc; dat s 0 = Inr pl; \<not> publish_fault E (tick s);
      sleep_error E pd = Some e;
      iteration E pd mc s =
        Raise e
          (s \<lparr> msgs := msgs s + 1, tick := Suc (tick s), dat := (\<lambda>k. dat s (Suc k)),
               drv := self0 \<lparr> ctl_log := ctl_log (drv s) @
                         [IsConnected True, Publish (topic_publish (drv s)) pl] \<rparr> \<rparr>)\<rbrakk>
     \<Longrightarrow> thesis"
    "\<And>pl. \<lbrakk>connected self0; msgs s < mc; dat s 0 = Inr pl; \<not> publish_fault E (tick s);
      sleep_error E pd = None;
      iteration E pd mc s =
        Continue
          (s \<lparr> msgs := msgs s + 1, tick := Suc (tick s), dat := (\<lambda>k. dat s (Suc k)),
               drv := self0 \<lparr> ctl_log := ctl_log (drv s) @
                         [IsConnected True, Publish (topic_publish (drv s)) pl, Sleep pd] \<rparr> \<rparr>)\<rbrakk>
     \<Longrightarrow> thesis"
  shows thesis
proof (cases "connected self0")
  case False
  show ?thesis
  proof (cases "sleep_error E pd")
    case (Some e)
    with False show ?thesis
      using assms(3) [of e]
      by (simp add: Let_def iteration_def self0_def is_connected_def sleep_eq)
  next
    case None
    with False show ?thesis
      using assms(2) by (simp add: Let_def iteration_def self0_def is_connected_def sleep_eq)
  qed
next
  case conn: True
  show ?thesis
  proof (cases "msgs s < mc")
    case False
    with conn show ?thesis
      using assms(4) by (simp add: Let_def iteration_def self0_def is_connected_def)
  next
    case below: True
    show ?thesis
    proof (cases "dat s 0")
      case (Inl e)
      with conn below show ?thesis
        using assms(5) [of e]
        by (simp add: Let_def iteration_def self0_def is_connected_def generate_def)
    next
      case (Inr pl)
      show ?thesis
      proof (cases "publish_fault E (tick s)")
        case True
        with conn below Inr show ?thesis
          using assms(6) [of pl]
          by (simp add: Let_def iteration_def self0_def is_connected_def generate_def publish_def)
      next
        case nofault: False
        show ?thesis
        proof (cases "sleep_error E pd")
          case (Some e)
          with conn below Inr nofault show ?thesis
            using assms(7) [of pl e]
            by (simp add: Let_def iteration_def self0_def is_connected_def generate_def
                publish_def sleep_eq)
        next
          case None
          with conn below Inr nofault show ?thesis
            using assms(8) [of pl]
            by (simp add: Let_def iteration_def self0_def is_connected_def generate_def
                publish_def sleep_eq)
        qed
      qed
    qed
  qed
qed

subsection \<open>Logs\<close>

lemma gated_Nil: "gated []"
  by (simp add: gated_def)

lemma gated_append:
  assumes xs: "gated xs" and ys: "gated ys"
  shows "gated (xs @ ys)"
  unfolding gated_def
proof (intro allI impI)
  fix pre t p post
  assume eq: "xs @ ys = pre @ Publish t p # post"
  then obtain us where
    "(xs = pre @ us \<and> us @ ys = Publish t p # post) \<or> (xs @ us = pre \<and> ys = us @ Publish t p # post)"
    by (auto simp: append_eq_append_conv2)
  then show "\<exists>pre'. pre = pre' @ [IsConnected True]"
  proof
    assume a: "xs = pre @ us \<and> us @ ys = Publish t p # post"
    show ?thesis
    proof (cases us)
      case Nil
      with a have "ys = [] @ Publish t p # post" by simp
      with ys obtain pre' where "[] = pre' @ [IsConnected True]"
        unfolding gated_def by blast
      then show ?thesis by simp
    next
      case (Cons u us')
      with a have "xs = pre @ Publish t p # us'" by simp
      with xs show ?thesis unfolding gated_def by blast
    qed
  next
    assume b: "xs @ us = pre \<and> ys = us @ Publish t p # post"
    with ys obtain pre' where "us = pre' @ [IsConnected True]"
      unfolding gated_def by blast
    with b have "pre = (xs @ pre') @ [IsConnected True]" by simp
    then show ?thesis by blast
  qed
qed

lemma gated_blocks:
  "gated [IsConnected b]"
  "gated [IsConnected b, Sleep pd]"
  "gated [IsConnected True, Publish t p]"
  "gated [IsConnected True, Publish t p, Sleep pd]"
  "gated [LoopStart]"
  "gated [LoopStop]"
  by (auto simp: gated_def Cons_eq_append_conv append_eq_Cons_conv)


lemma publishes_append: "publishes (xs @ ys) = publishes xs @ publishes ys"
  by (induction xs rule: publishes.induct) simp_all

lemma slept_append: "slept (xs @ ys) = slept xs + slept ys"
  by (induction xs rule: slept.induct) simp_all

lemma after_invariant:
  assumes "P s" and step: "\<And>s. P s \<Longrightarrow> P (state_of (iteration E pd mc s))"
  shows "P (state_of (after E pd mc n s))"
  using assms(1)
proof (induction n arbitrary: s)
  case 0
  then show ?case by simp
next
  case (Suc n)
  from Suc.prems have nxt: "P (state_of (iteration E pd mc s))" by (rule step)
  show ?case
  proof (cases "iteration E pd mc s")
    case (Continue s')
    with nxt have "P s'" by simp
    then have "P (state_of (after E pd mc n s'))" by (rule Suc.IH)
    with Continue show ?thesis by simp
  next
    case (Break s')
    with nxt show ?thesis by simp
  next
    case (Raise e s')
    with nxt show ?thesis by simp
  qed
qed

lemma after_Break: "after E pd mc n s = Break s' \<Longrightarrow> while_True E pd mc s = Some (None, s')"
proof (induction n arbitrary: s)
  case 0
  then show ?case by simp
next
  case (Suc n)
  then show ?case
    by (cases "iteration E pd mc s") (simp_all add: while_True.simps [of E pd mc s])
qed

lemma after_Raise: "after E pd mc n s = Raise e s' \<Longrightarrow> while_True E pd mc s = Some (Some e, s')"
proof (induction n arbitrary: s)
  case 0
  then show ?case by simp
next
  case (Suc n)
  then show ?case
    by (cases "iteration E pd mc s") (simp_all add: while_True.simps [of E pd mc s])
qed

lemma after_Continue: "after E pd mc n s = Continue s' \<Longrightarrow> while_True E pd mc s = while_True E pd mc s'"
proof (induction n arbitrary: s)
  case 0
  then show ?case by simp
next
  case (Suc n)
  then show ?case
    by (cases "iteration E pd mc s") (simp_all add: while_True.simps [of E pd mc s])
qed

lemma while_True_after:
  assumes "while_True E pd mc s = Some y"
  shows "\<exists>n. after E pd mc n s = (case fst y of None \<Rightarrow> Break (snd y) | Some e \<Rightarrow> Raise e (snd y))"
proof (rule while_True.raw_induct
    [where P = "\<lambda>E pd mc s y. \<exists>n. after E pd mc n s =
                  (case fst y of None \<Rightarrow> Break (snd y) | Some e \<Rightarrow> Raise e (snd y))",
     OF _ assms])
  fix wt :: "env \<Rightarrow> int \<Rightarrow> int \<Rightarrow> loop_state \<Rightarrow> (exn option \<times> loop_state) option"
  fix E pd mc s y
  assume IH: "\<And>E pd mc s y. wt E pd mc s = Some y \<Longrightarrow>
     \<exists>n. after E pd mc n s = (case fst y of None \<Rightarrow> Break (snd y) | Some e \<Rightarrow> Raise e (snd y))"
  assume body: "(case iteration E pd mc s of
        Continue s' \<Rightarrow> wt E pd mc s'
      | Break s' \<Rightarrow> Some (None, s')
      | Raise e s' \<Rightarrow> Some (Some e, s')) = Some y"
  show "\<exists>n. after E pd mc n s = (case fst y of None \<Rightarrow> Break (snd y) | Some e \<Rightarrow> Raise e (snd y))"
  proof (cases "iteration E pd mc s")
    case (Continue s')
    with body have "wt E pd mc s' = Some y" by simp
    then obtain n where
      "after E pd mc n s' = (case fst y of None \<Rightarrow> Break (snd y) | Some e \<Rightarrow> Raise e (snd y))"
      using IH by blast
    with Continue have
      "after E pd mc (Suc n) s = (case fst y of None \<Rightarrow> Break (snd y) | Some e \<Rightarrow> Raise e (snd y))"
      by simp
    then show ?thesis by blast
  next
    case (Break s')
    with body have "y = (None, s')" by simp
    with Break have
      "after E pd mc (Suc 0) s = (case fst y of None \<Rightarrow> Break (snd y) | Some e \<Rightarrow> Raise e (snd y))"
      by simp
    then show ?thesis by blast
  next
    case (Raise e s')
    with body have "y = (Some e, s')" by simp
    with Raise have
      "after E pd mc (Suc 0) s = (case fst y of None \<Rightarrow> Break (snd y) | Some e \<Rightarrow> Raise e (snd y))"
      by simp
    then show ?thesis by blast
  qed
qed

lemma while_True_state:
  assumes "while_True E pd mc s = Some (r, s')"
  shows "\<exists>n. s' = state_of (after E pd mc n s)"
proof -
  have "\<exists>n. after E pd mc n s = (case r of None \<Rightarrow> Break s' | Some e \<Rightarrow> Raise e s')"
    using while_True_after [OF assms] by (cases r) simp_all
  then obtain n where
    "after E pd mc n s = (case r of None \<Rightarrow> Break s' | Some e \<Rightarrow> Raise e s')" by blast
  then have "state_of (after E pd mc n s) = s'" by (cases r) simp_all
  then show ?thesis by blast
qed

lemma iteration_log:
  "\<exists>blk. ctl_log (drv (state_of (iteration E pd mc s))) = ctl_log (drv s) @ blk \<and> gated blk"
  by (rule iteration_cases [where E = E and pd = pd and mc = mc and s = s])
     (simp_all add: gated_blocks)

lemma after_log:
  "\<exists>evs. ctl_log (drv (state_of (after E pd mc n s))) = ctl_log (drv s) @ evs \<and> gated evs"
proof (rule after_invariant [where P = "\<lambda>s'. \<exists>evs. ctl_log (drv s') = ctl_log (drv s) @ evs \<and> gated evs"])
  show "\<exists>evs. ctl_log (drv s) = ctl_log (drv s) @ evs \<and> gated evs"
    using gated_Nil by simp
next
  fix s' :: loop_state
  assume "\<exists>evs. ctl_log (drv s') = ctl_log (drv s) @ evs \<and> gated evs"
  then obtain evs where evs: "ctl_log (drv s') = ctl_log (drv s) @ evs" "gated evs" by blast
  obtain blk where blk: "ctl_log (drv (state_of (iteration E pd mc s'))) = ctl_log (drv s') @ blk" "gated blk"
    using iteration_log by blast
  from evs blk have "ctl_log (drv (state_of (iteration E pd mc s'))) = ctl_log (drv s) @ (evs @ blk)"
    by simp
  moreover from evs(2) blk(2) have "gated (evs @ blk)" by (rule gated_append)
  ultimately show "\<exists>evs. ctl_log (drv (state_of (iteration E pd mc s'))) = ctl_log (drv s) @ evs \<and> gated evs"
    by blast
qed

lemma execute_Some:
  "execute E D pd mc self = Some (r, self') \<longleftrightarrow>
     (\<exists>s'. while_True E pd mc (entry D self) = Some (r, s') \<and> self' = loop_stop (drv s'))"
  by (auto simp: execute_def split: option.splits)

lemma entry_log:
  "\<exists>evs. ctl_log (drv (state_of (after E pd mc n (entry D self)))) = ctl_log self @ LoopStart # evs \<and>
         gated (LoopStart # evs)"
proof -
  obtain evs where evs:
    "ctl_log (drv (state_of (after E pd mc n (entry D self)))) = ctl_log (drv (entry D self)) @ evs"
    "gated evs"
    using after_log by blast
  have "gated ([LoopStart] @ evs)"
    using gated_blocks(5) evs(2) by (rule gated_append)
  with evs(1) show ?thesis by (simp add: loop_start_def)
qed

lemma execute_log:
  assumes "execute E D pd mc self = Some (r, self')"
  shows "\<exists>evs. ctl_log self' = ctl_log self @ LoopStart # evs @ [LoopStop] \<and>
               gated (LoopStart # evs @ [LoopStop])"
proof -
  from assms obtain s' where s': "while_True E pd mc (entry D self) = Some (r, s')"
    "self' = loop_stop (drv s')"
    by (auto simp: execute_Some)
  from s'(1) obtain n where n: "s' = state_of (after E pd mc n (entry D self))"
    using while_True_state by blast
  obtain evs where evs: "ctl_log (drv s') = ctl_log self @ LoopStart # evs" "gated (LoopStart # evs)"
    using entry_log [of E pd mc n D self] n by blast
  have "gated ((LoopStart # evs) @ [LoopStop])"
    using evs(2) gated_blocks(6) by (rule gated_append)
  with evs(1) s'(2) show ?thesis by (simp add: loop_stop_def)
qed


text \<open>The run of the scenario: an accepting broker, the stream a, b, no delay, two messages.\<close>

lemma accepting_run:
  "execute accepting (stream_of [''a'', ''b'']) 0 2 (init ''dev'') =
     Some (None, delivered)"
  by (simp add: delivered_def execute_def accepting_def init_def loop_start_def loop_stop_def
      while_True.simps iteration_def io_thread_def on_connect_def connection_result_def
      is_connected_def generate_def stream_of_def publish_def sleep_def)


section \<open>Properties of the publish loop\<close>

text \<open>
  C4. In every execution of \<^verbatim>\<open>execute\<close>, however long it has run and whether or not
  it ever returns, each call of \<^verbatim>\<open>client.publish\<close> in the control thread's log
  comes right after a call of \<^verbatim>\<open>is_connected()\<close> that returned True: no publish is
  attempted in an iteration whose connection check failed. The same holds for the whole
  log of an execution that has returned.
\<close>

theorem publish_only_when_connected:
  "(ctl_log (drv (state_of (after E pd mc n (entry D self)))) = ctl_log self @ pre @ Publish t p # post
      \<longrightarrow> (\<exists>pre'. pre = pre' @ [IsConnected True])) \<and>
   (execute E D pd mc self = Some (r, self') \<and>
    ctl_log self' = ctl_log self @ pre @ Publish t p # post
      \<longrightarrow> (\<exists>pre'. pre = pre' @ [IsConnected True]))"
proof (intro conjI impI)
  assume log: "ctl_log (drv (state_of (after E pd mc n (entry D self)))) =
                 ctl_log self @ pre @ Publish t p # post"
  obtain evs where evs:
    "ctl_log (drv (state_of (after E pd mc n (entry D self)))) = ctl_log self @ LoopStart # evs"
    "gated (LoopStart # evs)"
    using entry_log by blast
  from log evs(1) have "LoopStart # evs = pre @ Publish t p # post" by simp
  with evs(2) show "\<exists>pre'. pre = pre' @ [IsConnected True]"
    unfolding gated_def by blast
next
  assume a: "execute E D pd mc self = Some (r, self') \<and>
             ctl_log self' = ctl_log self @ pre @ Publish t p # post"
  then obtain evs where evs:
    "ctl_log self' = ctl_log self @ LoopStart # evs @ [LoopStop]"
    "gated (LoopStart # evs @ [LoopStop])"
    using execute_log by blast
  from a evs(1) have "LoopStart # evs @ [LoopStop] = pre @ Publish t p # post" by simp
  with evs(2) show "\<exists>pre'. pre = pre' @ [IsConnected True]"
    unfolding gated_def by blast
qed

theorem publish_only_when_connected_witness:
  "execute accepting (stream_of [''a'', ''b'']) 0 2 (init ''dev'') \<noteq> None \<and>
   (\<exists>r self'. execute accepting (stream_of [''a'', ''b'']) 0 2 (init ''dev'') = Some (r, self') \<and>
      ctl_log self' = ctl_log (init ''dev'') @
        [LoopStart, IsConnected True, Publish ''devices/dev/messages/events/'' ''a'', Sleep 0,
         IsConnected True] @ Publish ''devices/dev/messages/events/'' ''b'' #
        [Sleep 0, IsConnected True, LoopStop]) \<and>
   (\<exists>pre'. [LoopStart, IsConnected True, Publish ''devices/dev/messages/events/'' ''a'', Sleep 0,
         IsConnected True] = pre' @ [IsConnected True])"
  using publish_only_when_connected
    [of accepting 0 2 0 "stream_of [''a'', ''b'']" "init ''dev''"
        "[LoopStart, IsConnected True, Publish ''devices/dev/messages/events/'' ''a'', Sleep 0,
          IsConnected True]"
        "''devices/dev/messages/events/''" "''b''" "[Sleep 0, IsConnected True, LoopStop]"
        None delivered]
  by (simp add: accepting_run) (simp add: init_def delivered_def)


subsection \<open>The counter\<close>

lemma iteration_msgs:
  "msgs (state_of (iteration E pd mc s)) = msgs s \<or>
   (msgs s < mc \<and> msgs (state_of (iteration E pd mc s)) = msgs s + 1)"
  by (rule iteration_cases [where E = E and pd = pd and mc = mc and s = s]) simp_all

lemma iteration_count:
  "int (length (publishes (ctl_log (drv (state_of (iteration E pd mc s)))))) - msgs (state_of (iteration E pd mc s))
     \<le> int (length (publishes (ctl_log (drv s)))) - msgs s"
  by (rule iteration_cases [where E = E and pd = pd and mc = mc and s = s])
     (simp_all add: publishes_append)

lemma after_msgs:
  "0 \<le> msgs (state_of (after E pd mc n (entry D self))) \<and>
   msgs (state_of (after E pd mc n (entry D self))) \<le> max 0 mc \<and>
   int (length (publishes (ctl_log (drv (state_of (after E pd mc n (entry D self)))))))
     \<le> int (length (publishes (ctl_log self))) + msgs (state_of (after E pd mc n (entry D self)))"
proof (rule after_invariant
    [where P = "\<lambda>s. 0 \<le> msgs s \<and> msgs s \<le> max 0 mc \<and>
        int (length (publishes (ctl_log (drv s)))) \<le> int (length (publishes (ctl_log self))) + msgs s"])
  show "0 \<le> msgs (entry D self) \<and> msgs (entry D self) \<le> max 0 mc \<and>
        int (length (publishes (ctl_log (drv (entry D self)))))
          \<le> int (length (publishes (ctl_log self))) + msgs (entry D self)"
    by (simp add: loop_start_def publishes_append)
next
  fix s :: loop_state
  assume inv: "0 \<le> msgs s \<and> msgs s \<le> max 0 mc \<and>
        int (length (publishes (ctl_log (drv s)))) \<le> int (length (publishes (ctl_log self))) + msgs s"
  show "0 \<le> msgs (state_of (iteration E pd mc s)) \<and>
        msgs (state_of (iteration E pd mc s)) \<le> max 0 mc \<and>
        int (length (publishes (ctl_log (drv (state_of (iteration E pd mc s))))))
          \<le> int (length (publishes (ctl_log self))) + msgs (state_of (iteration E pd mc s))"
    using inv iteration_msgs [of E pd mc s] iteration_count [of E pd mc s] by linarith
qed

text \<open>
  C5. For a count that is not negative, the counter never exceeds the count, at any
  point of any execution. It starts at 0 and never goes below; an iteration leaves it
  alone or increments it, and increments it only when it was strictly below the count.
  So the number of publish calls issued, at any point and at the return of
  \<^verbatim>\<open>execute\<close>, is at most the count. (For any count, the bounds hold with the larger
  of 0 and the count.)
\<close>

theorem msgs_bounded:
  "(0 \<le> mc \<longrightarrow> msgs (state_of (after E pd mc n (entry D self))) \<le> mc) \<and>
   msgs (entry D self) = 0 \<and>
   0 \<le> msgs (state_of (after E pd mc n (entry D self))) \<and>
   msgs (state_of (after E pd mc n (entry D self))) \<le> max 0 mc \<and>
   (msgs (state_of (iteration E pd mc s)) = msgs s \<or>
      (msgs s < mc \<and> msgs (state_of (iteration E pd mc s)) = msgs s + 1)) \<and>
   int (length (publishes (ctl_log (drv (state_of (after E pd mc n (entry D self)))))))
     \<le> int (length (publishes (ctl_log self))) + max 0 mc \<and>
   (0 \<le> mc \<longrightarrow>
      int (length (publishes (ctl_log (drv (state_of (after E pd mc n (entry D self)))))))
        \<le> int (length (publishes (ctl_log self))) + mc) \<and>
   (execute E D pd mc self = Some (r, self') \<longrightarrow>
      int (length (publishes (ctl_log self'))) \<le> int (length (publishes (ctl_log self))) + max 0 mc \<and>
      (0 \<le> mc \<longrightarrow>
         int (length (publishes (ctl_log self'))) \<le> int (length (publishes (ctl_log self))) + mc))"
proof -
  have inv: "\<And>n. 0 \<le> msgs (state_of (after E pd mc n (entry D self))) \<and>
   msgs (state_of (after E pd mc n (entry D self))) \<le> max 0 mc \<and>
   int (length (publishes (ctl_log (drv (state_of (after E pd mc n (entry D self)))))))
     \<le> int (length (publishes (ctl_log self))) + msgs (state_of (after E pd mc n (entry D self)))"
    by (rule after_msgs)
  have fin: "int (length (publishes (ctl_log self'))) \<le> int (length (publishes (ctl_log self))) + max 0 mc"
    if ex: "execute E D pd mc self = Some (r, self')"
  proof -
    from ex obtain s' where s': "while_True E pd mc (entry D self) = Some (r, s')"
      "self' = loop_stop (drv s')"
      by (auto simp: execute_Some)
    from s'(1) obtain k where k: "s' = state_of (after E pd mc k (entry D self))"
      using while_True_state by blast
    have "publishes (ctl_log self') = publishes (ctl_log (drv s'))"
      using s'(2) by (simp add: loop_stop_def publishes_append)
    with inv [of k] k show ?thesis by simp
  qed
  have fin': "int (length (publishes (ctl_log self'))) \<le> int (length (publishes (ctl_log self))) + mc"
    if "execute E D pd mc self = Some (r, self')" "0 \<le> mc"
    using fin [OF that(1)] that(2) by simp
  have "msgs (state_of (after E pd mc n (entry D self))) \<le> mc" if "0 \<le> mc"
    using inv [of n] that by simp
  moreover have "msgs (entry D self) = 0" by simp
  moreover have pubs: "int (length (publishes (ctl_log (drv (state_of (after E pd mc n (entry D self)))))))
     \<le> int (length (publishes (ctl_log self))) + max 0 mc"
    using inv [of n] by linarith
  moreover have "int (length (publishes (ctl_log (drv (state_of (after E pd mc n (entry D self)))))))
     \<le> int (length (publishes (ctl_log self))) + mc" if "0 \<le> mc"
    using pubs that by simp
  ultimately show ?thesis
    using inv [of n] iteration_msgs [of E pd mc s] fin fin' by blast
qed

theorem msgs_bounded_witness:
  "(0::int) \<le> 2 \<and>
   msgs (state_of (after accepting 0 2 3 (entry (stream_of [''a'', ''b'']) (init ''dev'')))) \<le> 2 \<and>
   execute accepting (stream_of [''a'', ''b'']) 0 2 (init ''dev'') = Some (None, delivered) \<and>
   int (length (publishes (ctl_log delivered))) \<le> 2"
  using msgs_bounded [of 2 accepting 0 3 "stream_of [''a'', ''b'']" "init ''dev''" _ None delivered]
  by (simp add: accepting_run) (simp add: init_def)


subsection \<open>The pace\<close>

lemma iteration_slept:
  assumes "iteration E pd mc s = Continue s'"
  shows "0 \<le> pd \<and> pd \<le> 9223372036 \<and> \<not> sleep_rejected E pd \<and>
         slept (ctl_log (drv s')) = slept (ctl_log (drv s)) + pd \<and>
         (ctl_log (drv s') = ctl_log (drv s) @ [IsConnected False, Sleep pd] \<or>
          (\<exists>pl. ctl_log (drv s') =
                  ctl_log (drv s) @ [IsConnected True, Publish (topic_publish (drv s)) pl, Sleep pd]))"
  by (rule iteration_cases [where E = E and pd = pd and mc = mc and s = s])
     (use assms in \<open>auto simp: slept_append sleep_error_None\<close>)

lemma after_slept:
  "after E pd mc n s = Continue s' \<Longrightarrow>
     slept (ctl_log (drv s')) = slept (ctl_log (drv s)) + int n * pd"
proof (induction n arbitrary: s)
  case 0
  then show ?case by simp
next
  case (Suc n)
  show ?case
  proof (cases "iteration E pd mc s")
    case (Continue s1)
    with Suc.prems have "after E pd mc n s1 = Continue s'" by simp
    then have "slept (ctl_log (drv s')) = slept (ctl_log (drv s1)) + int n * pd"
      by (rule Suc.IH)
    moreover have "slept (ctl_log (drv s1)) = slept (ctl_log (drv s)) + pd"
      using iteration_slept [OF Continue] by simp
    ultimately show ?thesis by (simp add: algebra_simps)
  next
    case (Break s1)
    with Suc.prems show ?thesis by simp
  next
    case (Raise e s1)
    with Suc.prems show ?thesis by simp
  qed
qed

lemma silent_waits:
  "after silent 2 5 3 (entry (stream_of [''a'', ''b'']) (init ''dev'')) =
     Continue \<lparr> msgs = 0, tick = 3, dat = stream_of [''a'', ''b''],
       drv = \<lparr> topic_publish = ''devices/dev/messages/events/'',
         topic_receive = ''devices/dev/messages/devicebound/#'',
         connected = False,
         loop_running = True,
         net_log = [],
         ctl_log = [LoopStart, IsConnected False, Sleep 2, IsConnected False, Sleep 2,
                    IsConnected False, Sleep 2] \<rparr> \<rparr>"
  by (simp add: numeral_3_eq_3 silent_def init_def loop_start_def
      iteration_def io_thread_def is_connected_def sleep_def)


lemma silent_waits_once:
  "iteration silent 2 5 (entry (stream_of [''a'', ''b'']) (init ''dev'')) =
     Continue \<lparr> msgs = 0, tick = 1, dat = stream_of [''a'', ''b''],
       drv = \<lparr> topic_publish = ''devices/dev/messages/events/'',
         topic_receive = ''devices/dev/messages/devicebound/#'',
         connected = False,
         loop_running = True,
         net_log = [],
         ctl_log = [LoopStart, IsConnected False, Sleep 2] \<rparr> \<rparr>"
  by (simp add: silent_def init_def loop_start_def
      iteration_def io_thread_def is_connected_def sleep_def)

text \<open>
  C7. An iteration after which the loop goes on has slept: the delay is a length
  \<^verbatim>\<open>time.sleep\<close> takes, the last call of the iteration is \<^verbatim>\<open>sleep(publish_delay)\<close>,
  whether the iteration published or found the driver disconnected, and the time
  slept has grown by exactly the delay. A disconnected iteration with a delay that
  \<^verbatim>\<open>time.sleep\<close> takes always goes on, with the check and the sleep as its only calls.
  After \<open>n\<close> iterations that all went on, the loop has slept \<open>n\<close> times the delay.
\<close>

theorem sleeps_every_iteration:
  "(iteration E pd mc s = Continue s' \<longrightarrow>
      0 \<le> pd \<and> slept (ctl_log (drv s')) = slept (ctl_log (drv s)) + pd \<and>
      (ctl_log (drv s') = ctl_log (drv s) @ [IsConnected False, Sleep pd] \<or>
       (\<exists>pl. ctl_log (drv s') =
               ctl_log (drv s) @ [IsConnected True, Publish (topic_publish (drv s)) pl, Sleep pd]))) \<and>
   (\<not> is_connected (io_thread (io E (tick s)) (drv s)) \<and>
    0 \<le> pd \<and> pd \<le> 9223372036 \<and> \<not> sleep_rejected E pd \<longrightarrow>
      (\<exists>s''. iteration E pd mc s = Continue s'' \<and>
             ctl_log (drv s'') = ctl_log (drv s) @ [IsConnected False, Sleep pd])) \<and>
   (after E pd mc n s = Continue s' \<longrightarrow>
      slept (ctl_log (drv s')) = slept (ctl_log (drv s)) + int n * pd)"
proof (intro conjI impI)
  assume "iteration E pd mc s = Continue s'"
  then show "0 \<le> pd" and "slept (ctl_log (drv s')) = slept (ctl_log (drv s)) + pd"
    and "ctl_log (drv s') = ctl_log (drv s) @ [IsConnected False, Sleep pd] \<or>
       (\<exists>pl. ctl_log (drv s') =
               ctl_log (drv s) @ [IsConnected True, Publish (topic_publish (drv s)) pl, Sleep pd])"
    using iteration_slept by blast+
next
  assume "\<not> is_connected (io_thread (io E (tick s)) (drv s)) \<and>
    0 \<le> pd \<and> pd \<le> 9223372036 \<and> \<not> sleep_rejected E pd"
  then show "\<exists>s''. iteration E pd mc s = Continue s'' \<and>
             ctl_log (drv s'') = ctl_log (drv s) @ [IsConnected False, Sleep pd]"
    by (simp add: iteration_def Let_def sleep_def)
next
  assume "after E pd mc n s = Continue s'"
  then show "slept (ctl_log (drv s')) = slept (ctl_log (drv s)) + int n * pd"
    by (rule after_slept)
qed

theorem sleeps_every_iteration_witness:
  "iteration silent 2 5 (entry (stream_of [''a'', ''b'']) (init ''dev'')) =
     Continue \<lparr> msgs = 0, tick = 1, dat = stream_of [''a'', ''b''],
       drv = \<lparr> topic_publish = ''devices/dev/messages/events/'',
         topic_receive = ''devices/dev/messages/devicebound/#'',
         connected = False,
         loop_running = True,
         net_log = [],
         ctl_log = [LoopStart, IsConnected False, Sleep 2] \<rparr> \<rparr> \<and>
   \<not> is_connected (io_thread (io silent 0) (loop_start (init ''dev''))) \<and>
   (0::int) \<le> 2 \<and> (2::int) \<le> 9223372036 \<and> \<not> sleep_rejected silent 2 \<and>
   after silent 2 5 3 (entry (stream_of [''a'', ''b'']) (init ''dev'')) =
     Continue \<lparr> msgs = 0, tick = 3, dat = stream_of [''a'', ''b''],
       drv = \<lparr> topic_publish = ''devices/dev/messages/events/'',
         topic_receive = ''devices/dev/messages/devicebound/#'',
         connected = False,
         loop_running = True,
         net_log = [],
         ctl_log = [LoopStart, IsConnected False, Sleep 2, IsConnected False, Sleep 2,
                    IsConnected False, Sleep 2] \<rparr> \<rparr> \<and>
   slept [LoopStart, IsConnected False, Sleep 2, IsConnected False, Sleep 2,
          IsConnected False, Sleep 2] = slept [LoopStart] + 3 * 2"
  using sleeps_every_iteration
    [of silent 2 5 "entry (stream_of [''a'', ''b'']) (init ''dev'')"
        "\<lparr> msgs = 0, tick = 1, dat = stream_of [''a'', ''b''],
       drv = \<lparr> topic_publish = ''devices/dev/messages/events/'',
         topic_receive = ''devices/dev/messages/devicebound/#'',
         connected = False,
         loop_running = True,
         net_log = [],
         ctl_log = [LoopStart, IsConnected False, Sleep 2] \<rparr> \<rparr>" 1]
    sleeps_every_iteration
    [of silent 2 5 "entry (stream_of [''a'', ''b'']) (init ''dev'')"
        "\<lparr> msgs = 0, tick = 3, dat = stream_of [''a'', ''b''],
       drv = \<lparr> topic_publish = ''devices/dev/messages/events/'',
         topic_receive = ''devices/dev/messages/devicebound/#'',
         connected = False,
         loop_running = True,
         net_log = [],
         ctl_log = [LoopStart, IsConnected False, Sleep 2, IsConnected False, Sleep 2,
                    IsConnected False, Sleep 2] \<rparr> \<rparr>" 3]
  by (simp add: silent_waits silent_waits_once del: after.simps)
     (simp add: silent_def init_def loop_start_def io_thread_def is_connected_def)


subsection \<open>The way out\<close>

lemma iteration_Break_connected:
  assumes "iteration E pd mc s = Break s'"
  shows "connected (drv s')"
  by (rule iteration_cases [where E = E and pd = pd and mc = mc and s = s])
     (use assms in auto)

lemma after_Break_connected:
  "after E pd mc n s = Break s' \<Longrightarrow> connected (drv s')"
proof (induction n arbitrary: s)
  case 0
  then show ?case by simp
next
  case (Suc n)
  show ?case
  proof (cases "iteration E pd mc s")
    case (Continue s1)
    with Suc.prems have "after E pd mc n s1 = Break s'" by simp
    then show ?thesis by (rule Suc.IH)
  next
    case (Break s1)
    with Suc.prems have "s1 = s'" by simp
    with Break show ?thesis using iteration_Break_connected by blast
  next
    case (Raise e s1)
    with Suc.prems show ?thesis by simp
  qed
qed

lemma execute_stopped:
  assumes "execute E D pd mc self = Some (r, self')"
  shows "\<not> loop_running self'"
  using assms by (auto simp: execute_Some loop_stop_def)

lemma execute_normal_connected:
  assumes "execute E D pd mc self = Some (None, self')"
  shows "connected self'"
proof -
  from assms obtain s' where s': "while_True E pd mc (entry D self) = Some (None, s')"
    "self' = loop_stop (drv s')"
    by (auto simp: execute_Some)
  have "\<exists>n. after E pd mc n (entry D self) = Break s'"
    using while_True_after [OF s'(1)] by simp
  then have "connected (drv s')" using after_Break_connected by blast
  with s'(2) show ?thesis by (simp add: loop_stop_def)
qed

lemma faulty_run:
  "execute faulty (stream_of [''a'', ''b'']) 0 2 (init ''dev'') = Some (Some TransportError, aborted)"
  by (simp add: aborted_def execute_def faulty_def init_def loop_start_def loop_stop_def
      while_True.simps iteration_def io_thread_def on_connect_def connection_result_def
      is_connected_def generate_def stream_of_def publish_def sleep_def)

text \<open>
  C3, as stated, at the scenario of the specification: \<^verbatim>\<open>execute\<close> returns, the
  network loop is stopped, and the flag \<open>connected\<close> is still True.
\<close>

theorem connected_after_shutdown:
  "execute accepting (stream_of [''a'', ''b'']) 0 2 (init ''dev'') = Some (None, delivered) \<and>
   connected delivered \<and> \<not> loop_running delivered"
  by (simp add: accepting_run) (simp add: delivered_def)

text \<open>
  C3, amended. \<^verbatim>\<open>client.loop_stop()\<close>, at any point, leaves no network thread running
  and leaves the flag \<open>connected\<close> as it was: nothing in the cleanup resets it. So after
  \<^verbatim>\<open>execute\<close> has returned or raised no network thread is running, and after it has
  returned normally the flag is True.
\<close>

theorem shutdown_stops_thread_keeps_flag:
  "\<not> loop_running (loop_stop self) \<and>
   connected (loop_stop self) = connected self \<and>
   (execute E D pd mc self = Some (r, self') \<longrightarrow> \<not> loop_running self') \<and>
   (execute E D pd mc self = Some (None, self') \<longrightarrow> connected self')"
  using execute_stopped execute_normal_connected by (auto simp: loop_stop_def)

theorem shutdown_stops_thread_keeps_flag_witness:
  "execute accepting (stream_of [''a'', ''b'']) 0 2 (init ''dev'') = Some (None, delivered) \<and>
   \<not> loop_running delivered \<and> connected delivered"
  using shutdown_stops_thread_keeps_flag
    [of "init ''dev''" accepting "stream_of [''a'', ''b'']" 0 2 None delivered]
  by (simp add: accepting_run)

text \<open>
  C6. However \<^verbatim>\<open>execute\<close> is left, by the \<^verbatim>\<open>break\<close> or by an exception raised
  in the loop (by the data source, by the publish call or by the sleep), the network
  loop is stopped: the thread is not running and \<^verbatim>\<open>client.loop_stop()\<close> is the last
  call in the control thread's log.
\<close>

theorem loop_stop_on_every_exit:
  assumes "execute E D pd mc self = Some (r, self')"
  shows "\<not> loop_running self' \<and>
         (\<exists>evs. ctl_log self' = ctl_log self @ LoopStart # evs @ [LoopStop])"
proof
  from assms show "\<not> loop_running self'" by (rule execute_stopped)
  from assms show "\<exists>evs. ctl_log self' = ctl_log self @ LoopStart # evs @ [LoopStop]"
    using execute_log by blast
qed

theorem loop_stop_on_every_exit_witness:
  "execute faulty (stream_of [''a'', ''b'']) 0 2 (init ''dev'') = Some (Some TransportError, aborted) \<and>
   \<not> loop_running aborted \<and>
   (\<exists>evs. ctl_log aborted = ctl_log (init ''dev'') @ LoopStart # evs @ [LoopStop]) \<and>
   execute accepting (stream_of [''a'', ''b'']) 0 2 (init ''dev'') = Some (None, delivered) \<and>
   \<not> loop_running delivered \<and>
   (\<exists>evs. ctl_log delivered = ctl_log (init ''dev'') @ LoopStart # evs @ [LoopStop])"
  using loop_stop_on_every_exit [OF faulty_run] loop_stop_on_every_exit [OF accepting_run]
  by (simp add: faulty_run accepting_run)


subsection \<open>The number of messages\<close>

lemma stream_of_shift: "(\<lambda>k. stream_of (x # xs) (Suc k)) = stream_of xs"
  by (rule ext) (simp add: stream_of_def)

lemma items_stream_of: "items (stream_of xs) m = take m xs"
proof (induction m arbitrary: xs)
  case 0
  then show ?case by simp
next
  case (Suc m)
  show ?case
  proof (cases xs)
    case Nil
    then show ?thesis by (simp add: stream_of_def)
  next
    case (Cons x xs')
    have "stream_of (x # xs') 0 = Inr x" by (simp add: stream_of_def)
    then show ?thesis using Cons Suc.IH [of xs'] by (simp add: stream_of_shift)
  qed
qed

lemma length_items: "length (items d m) \<le> m"
  by (induction m arbitrary: d) (simp_all split: sum.split)

lemma connected_phase:
  assumes pd: "sleep_error E pd = None" and nofault: "\<forall>i. \<not> publish_fault E i"
  shows "nat (mc - msgs s) = m \<Longrightarrow> connected (io_thread (io E (tick s)) (drv s)) \<Longrightarrow>
         finishes E pd mc s"
proof (induction m arbitrary: s)
  case 0
  then have reached: "\<not> msgs s < mc" by simp
  show ?case
  proof (rule iteration_cases [where E = E and pd = pd and mc = mc and s = s])
    assume "connected (io_thread (io E (tick s)) (drv s))" "\<not> msgs s < mc"
      and it: "iteration E pd mc s =
        Break (s \<lparr> tick := Suc (tick s),
                   drv := io_thread (io E (tick s)) (drv s)
                            \<lparr> ctl_log := ctl_log (drv s) @ [IsConnected True] \<rparr> \<rparr>)"
    have "while_True E pd mc s =
        Some (None, s \<lparr> tick := Suc (tick s),
                   drv := io_thread (io E (tick s)) (drv s)
                            \<lparr> ctl_log := ctl_log (drv s) @ [IsConnected True] \<rparr> \<rparr>)"
      using it by (simp add: while_True.simps [of E pd mc s])
    then show ?thesis
      using 0(1) by (simp add: finishes_def publishes_append)
  qed (use 0 reached in auto)
next
  case (Suc m)
  then have below: "msgs s < mc" by simp
  show ?case
  proof (rule iteration_cases [where E = E and pd = pd and mc = mc and s = s])
    fix e
    assume "dat s 0 = Inl e"
      and it: "iteration E pd mc s =
        Raise e (s \<lparr> msgs := msgs s + 1, tick := Suc (tick s),
                     drv := io_thread (io E (tick s)) (drv s)
                              \<lparr> ctl_log := ctl_log (drv s) @ [IsConnected True] \<rparr> \<rparr>)"
    have "while_True E pd mc s =
        Some (Some e, s \<lparr> msgs := msgs s + 1, tick := Suc (tick s),
                     drv := io_thread (io E (tick s)) (drv s)
                              \<lparr> ctl_log := ctl_log (drv s) @ [IsConnected True] \<rparr> \<rparr>)"
      using it by (simp add: while_True.simps [of E pd mc s])
    then show ?thesis
      using Suc.prems(1) \<open>dat s 0 = Inl e\<close> by (simp add: finishes_def publishes_append)
  next
    fix pl
    assume item: "dat s 0 = Inr pl"
      and it: "iteration E pd mc s =
        Continue
          (s \<lparr> msgs := msgs s + 1, tick := Suc (tick s), dat := (\<lambda>k. dat s (Suc k)),
               drv := io_thread (io E (tick s)) (drv s)
                        \<lparr> ctl_log := ctl_log (drv s) @
                            [IsConnected True, Publish (topic_publish (drv s)) pl, Sleep pd] \<rparr> \<rparr>)"
    define s1 where "s1 =
          s \<lparr> msgs := msgs s + 1, tick := Suc (tick s), dat := (\<lambda>k. dat s (Suc k)),
               drv := io_thread (io E (tick s)) (drv s)
                        \<lparr> ctl_log := ctl_log (drv s) @
                            [IsConnected True, Publish (topic_publish (drv s)) pl, Sleep pd] \<rparr> \<rparr>"
    have m1: "nat (mc - msgs s1) = m" using Suc.prems(1) by (simp add: s1_def)
    have "connected (drv s1)" using Suc.prems(2) by (simp add: s1_def)
    then have "connected (io_thread (io E (tick s1)) (drv s1))" by (rule io_thread_connected)
    with m1 have "finishes E pd mc s1" by (rule Suc.IH)
    then obtain r s' where fin:
      "while_True E pd mc s1 = Some (r, s')"
      "publishes (ctl_log (drv s')) =
          publishes (ctl_log (drv s1)) @
          map (Pair (topic_publish (drv s1))) (items (dat s1) m)"
      "r = None \<longleftrightarrow> length (items (dat s1) m) = m"
      "\<forall>e. r = Some e \<longrightarrow> dat s1 (length (items (dat s1) m)) = Inl e"
      unfolding finishes_def m1 by blast
    have w: "while_True E pd mc s = Some (r, s')"
      using it fin(1) by (simp add: while_True.simps [of E pd mc s] s1_def)
    have its: "items (dat s) (Suc m) = pl # items (dat s1) m"
      using item by (simp add: s1_def)
    have "publishes (ctl_log (drv s')) =
          publishes (ctl_log (drv s)) @ map (Pair (topic_publish (drv s))) (items (dat s) (Suc m))"
      using fin(2) its by (simp add: s1_def publishes_append)
    moreover have "r = None \<longleftrightarrow> length (items (dat s) (Suc m)) = Suc m"
      using fin(3) its by simp
    moreover have "\<forall>e. r = Some e \<longrightarrow> dat s (length (items (dat s) (Suc m))) = Inl e"
      using fin(4) its by (simp add: s1_def)
    ultimately show ?thesis
      using w Suc.prems(1) unfolding finishes_def by auto
  qed (use Suc.prems below pd nofault in auto)
qed


lemma waiting_phase:
  assumes pd: "sleep_error E pd = None" and nofault: "\<forall>i. \<not> publish_fault E i"
  shows "loop_running (drv s) \<Longrightarrow>
         connected (drv s) \<or> (\<exists>rc\<in>{0..5}. ConnAck rc \<in> set (io E (tick s + k))) \<Longrightarrow>
         finishes E pd mc s"
proof (induction k arbitrary: s)
  case 0
  have "connected (io_thread (io E (tick s)) (drv s))"
    using 0 io_thread_connected io_thread_ConnAck by auto
  then show ?case using connected_phase [OF pd nofault] by blast
next
  case (Suc k)
  show ?case
  proof (cases "connected (io_thread (io E (tick s)) (drv s))")
    case True
    then show ?thesis using connected_phase [OF pd nofault] by blast
  next
    case False
    then have notyet: "\<not> connected (drv s)" using io_thread_connected by blast
    define s1 where "s1 =
          s \<lparr> tick := Suc (tick s),
              drv := io_thread (io E (tick s)) (drv s)
                       \<lparr> ctl_log := ctl_log (drv s) @ [IsConnected False, Sleep pd] \<rparr> \<rparr>"
    have it: "iteration E pd mc s = Continue s1"
      using False pd by (simp add: iteration_def Let_def is_connected_def sleep_eq s1_def)
    have "loop_running (drv s1)" using Suc.prems(1) by (simp add: s1_def)
    moreover have "connected (drv s1) \<or> (\<exists>rc\<in>{0..5}. ConnAck rc \<in> set (io E (tick s1 + k)))"
      using Suc.prems(2) notyet by (simp add: s1_def)
    ultimately have "finishes E pd mc s1" by (rule Suc.IH)
    moreover have "while_True E pd mc s = while_True E pd mc s1"
      using it by (simp add: while_True.simps [of E pd mc s])
    moreover have "publishes (ctl_log (drv s1)) = publishes (ctl_log (drv s))"
      "topic_publish (drv s1) = topic_publish (drv s)" "dat s1 = dat s" "msgs s1 = msgs s"
      by (simp_all add: s1_def publishes_append)
    ultimately show ?thesis by (simp add: finishes_def)
  qed
qed

lemma silent_never_connects:
  assumes "0 \<le> pd" and "pd \<le> 9223372036"
  shows "\<not> connected (drv s) \<Longrightarrow> \<exists>s'. after silent pd mc n s = Continue s' \<and> \<not> connected (drv s')"
proof (induction n arbitrary: s)
  case 0
  then show ?case by simp
next
  case (Suc n)
  define s1 where "s1 =
          s \<lparr> tick := Suc (tick s),
              drv := drv s \<lparr> ctl_log := ctl_log (drv s) @ [IsConnected False, Sleep pd] \<rparr> \<rparr>"
  have "iteration silent pd mc s = Continue s1"
    using Suc.prems assms
    by (simp add: iteration_def Let_def is_connected_def sleep_def s1_def silent_def io_thread_def)
  moreover have "\<not> connected (drv s1)" using Suc.prems by (simp add: s1_def)
  then have "\<exists>s'. after silent pd mc n s1 = Continue s' \<and> \<not> connected (drv s')" by (rule Suc.IH)
  ultimately show ?case by simp
qed

lemma silent_runs_forever:
  assumes "0 \<le> pd" and "pd \<le> 9223372036" and "\<not> connected self"
  shows "execute silent D pd mc self = None"
proof (rule ccontr)
  assume "execute silent D pd mc self \<noteq> None"
  then obtain r s' where w: "while_True silent pd mc (entry D self) = Some (r, s')"
    by (auto simp: execute_def split: option.splits)
  then obtain n where n: "after silent pd mc n (entry D self) =
      (case r of None \<Rightarrow> Break s' | Some e \<Rightarrow> Raise e s')"
    using while_True_after [OF w] by (cases r) auto
  have "\<not> connected (drv (entry D self))" using assms(3) by (simp add: loop_start_def)
  then obtain s'' where "after silent pd mc n (entry D self) = Continue s''"
    using silent_never_connects [OF assms(1) assms(2)] by blast
  with n show False by (cases r) simp_all
qed

text \<open>
  C2, as stated, against a broker that never answers the handshake: with the stream
  a, b, no delay and two messages to send, \<^verbatim>\<open>execute\<close> publishes nothing and never
  returns.
\<close>

theorem never_connected_never_returns:
  "execute silent (stream_of [''a'', ''b'']) 0 2 (init ''dev'') = None"
  by (rule silent_runs_forever) (simp_all add: init_def)

text \<open>
  C2, amended. Let the delay be a length \<^verbatim>\<open>time.sleep\<close> takes and the transport never
  fail in a publish call. If the completion of a successful handshake (result code 0)
  is delivered in some iteration, then \<^verbatim>\<open>execute\<close> terminates, and the publish calls
  it has issued are exactly the first items of the stream, in order, on the device's
  event topic, as many as the smaller of the count and the number of items the stream
  has. It returns normally when the stream had enough items, and leaves with the
  exception of the data object otherwise.
\<close>

theorem execute_publish_count:
  assumes "0 \<le> publish_delay" and "publish_delay \<le> 9223372036"
    and "\<not> sleep_rejected E publish_delay"
    and "\<forall>i. \<not> publish_fault E i"
    and "\<exists>k. ConnAck 0 \<in> set (io E k)"
  shows "(\<exists>r self'. execute E data publish_delay msg_count self = Some (r, self') \<and>
           publishes (ctl_log self') =
             publishes (ctl_log self) @ map (Pair (topic_publish self)) (items data (nat msg_count)) \<and>
           (r = None \<longleftrightarrow> length (items data (nat msg_count)) = nat msg_count) \<and>
           (\<forall>e. r = Some e \<longrightarrow> data (length (items data (nat msg_count))) = Inl e)) \<and>
         length (items data (nat msg_count)) \<le> nat msg_count \<and>
         (data = stream_of xs \<longrightarrow>
            items data (nat msg_count) = take (nat msg_count) xs \<and>
            length (items data (nat msg_count)) = min (nat msg_count) (length xs))"
proof -
  have sl: "sleep_error E publish_delay = None"
    using assms(1-3) by (simp add: sleep_error_None)
  from assms(5) obtain k where "ConnAck 0 \<in> set (io E (tick (entry data self) + k))"
    by auto
  then have "connected (drv (entry data self)) \<or>
       (\<exists>rc\<in>{0..5}. ConnAck rc \<in> set (io E (tick (entry data self) + k)))"
    by fastforce
  moreover have "loop_running (drv (entry data self))" by (simp add: loop_start_def)
  ultimately have "finishes E publish_delay msg_count (entry data self)"
    using waiting_phase [OF sl assms(4)] by blast
  then obtain r s' where fin:
    "while_True E publish_delay msg_count (entry data self) = Some (r, s')"
    "publishes (ctl_log (drv s')) =
       publishes (ctl_log (drv (entry data self))) @
       map (Pair (topic_publish (drv (entry data self)))) (items data (nat msg_count))"
    "r = None \<longleftrightarrow> length (items data (nat msg_count)) = nat msg_count"
    "\<forall>e. r = Some e \<longrightarrow> data (length (items data (nat msg_count))) = Inl e"
    unfolding finishes_def by auto
  have "execute E data publish_delay msg_count self = Some (r, loop_stop (drv s'))"
    using fin(1) by (simp add: execute_def)
  moreover have "publishes (ctl_log (loop_stop (drv s'))) =
      publishes (ctl_log self) @ map (Pair (topic_publish self)) (items data (nat msg_count))"
    using fin(2) by (simp add: loop_stop_def loop_start_def publishes_append)
  ultimately have "\<exists>r self'. execute E data publish_delay msg_count self = Some (r, self') \<and>
           publishes (ctl_log self') =
             publishes (ctl_log self) @ map (Pair (topic_publish self)) (items data (nat msg_count)) \<and>
           (r = None \<longleftrightarrow> length (items data (nat msg_count)) = nat msg_count) \<and>
           (\<forall>e. r = Some e \<longrightarrow> data (length (items data (nat msg_count))) = Inl e)"
    using fin(3,4) by blast
  moreover have "length (items data (nat msg_count)) \<le> nat msg_count"
    by (rule length_items)
  moreover have "items data (nat msg_count) = take (nat msg_count) xs \<and>
            length (items data (nat msg_count)) = min (nat msg_count) (length xs)"
    if "data = stream_of xs"
    using that by (simp add: items_stream_of min.commute)
  ultimately show ?thesis by blast
qed

theorem execute_publish_count_witness:
  "(0::int) \<le> 0 \<and> (0::int) \<le> 9223372036 \<and> \<not> sleep_rejected accepting 0 \<and>
   (\<forall>i. \<not> publish_fault accepting i) \<and>
   (\<exists>k. ConnAck 0 \<in> set (io accepting k)) \<and>
   execute accepting (stream_of [''a'', ''b'']) 0 2 (init ''dev'') = Some (None, delivered) \<and>
   publishes (ctl_log delivered) =
     [(''devices/dev/messages/events/'', ''a''), (''devices/dev/messages/events/'', ''b'')] \<and>
   items (stream_of [''a'', ''b'']) (nat 2) = [''a'', ''b'']"
proof -
  have h1: "(0::int) \<le> 0" by simp
  have h1': "(0::int) \<le> 9223372036" by simp
  have h1'': "\<not> sleep_rejected accepting 0" by (simp add: accepting_def)
  have h2: "\<forall>i. \<not> publish_fault accepting i" by (simp add: accepting_def)
  have "ConnAck 0 \<in> set (io accepting 0)" by (simp add: accepting_def)
  then have h3: "\<exists>k. ConnAck 0 \<in> set (io accepting k)" by blast
  have its: "items (stream_of [''a'', ''b'']) 2 = [''a'', ''b'']"
    by (simp add: items_stream_of)
  from execute_publish_count
         [OF h1 h1' h1'' h2 h3, of "stream_of [''a'', ''b'']" 2 "init ''dev''" "[''a'', ''b'']"]
  have "publishes (ctl_log delivered) =
     [(''devices/dev/messages/events/'', ''a''), (''devices/dev/messages/events/'', ''b'')]"
    by (simp add: accepting_run its) (simp add: init_def)
  with h1'' h2 h3 its show ?thesis
    by (simp add: accepting_run)
qed

section \<open>The event monitor\<close>

lemma str_nat_3_5: "str_nat 3 = ''3''" "str_nat 5 = ''5''"
  by code_simp+

lemma validate_cases:
  "validate_min_python_version v 3 5 None True = Inr True \<or>
   validate_min_python_version v 3 5 None True =
     Inl (SystemExit ''Python version 3.5 or higher required for this functionality.'')"
  by (simp add: validate_min_python_version_def Let_def str_nat_3_5 del: str_nat.simps)

subsection \<open>The executor's timeout\<close>

lemma executor_forever:
  assumes "arg_timeout a = 0"
  shows "executor a evs = None \<longleftrightarrow> (\<forall>gap. Cancels gap \<notin> set evs)"
  using assms
proof (induction evs)
  case Nil
  then show ?case by simp
next
  case (Cons ev evs)
  then show ?case by (cases ev) auto
qed

lemma executor_never_times_out:
  assumes "arg_timeout a = 0"
  shows "executor a evs = Some (n, e) \<Longrightarrow> e = Cancelled"
  using assms
proof (induction evs arbitrary: n)
  case Nil
  then show ?case by simp
next
  case (Cons ev evs)
  then show ?case by (cases ev) auto
qed

lemma executor_ends:
  assumes "arg_timeout a \<noteq> 0"
  shows "executor a evs \<noteq> None"
  using assms
proof (induction evs)
  case Nil
  then show ?case by simp
next
  case (Cons ev evs)
  then show ?case by (cases ev) auto
qed

subsection \<open>The handler\<close>

lemma monitor_events_runs:
  assumes "0 \<le> timeout"
    and "validate_min_python_version (version_info cmd) 3 5 None True = Inr True"
    and "ensure_uamqp cmd = None"
    and "get_event_hub_target_from_central_app_id cmd app_id = Inr target"
  shows "iot_central_monitor_events cmd app_id device_id consumer_group timeout repair_uamqp
           enqueued_time properties =
         (Inr (executor
                \<lparr> arg_consumer_group = consumer_group,
                  arg_enqueued_time =
                    (case enqueued_time of
                       None \<Rightarrow> utcnow_ms cmd
                     | Some t \<Rightarrow> if t = 0 then utcnow_ms cmd else t),
                  arg_central_target = target,
                  arg_properties = (case properties of None \<Rightarrow> [] | Some ps \<Rightarrow> ps),
                  arg_timeout = timeout * 1000,
                  arg_device_id = device_id,
                  arg_output = (case invocation_output cmd of
                                  None \<Rightarrow> ''json''
                                | Some out \<Rightarrow> if out = [] then ''json'' else out) \<rparr>
                (monitor_events cmd)),
          [EnsureUamqp repair_uamqp, GetTarget app_id,
           Executor
             \<lparr> arg_consumer_group = consumer_group,
               arg_enqueued_time =
                 (case enqueued_time of
                    None \<Rightarrow> utcnow_ms cmd
                  | Some t \<Rightarrow> if t = 0 then utcnow_ms cmd else t),
               arg_central_target = target,
               arg_properties = (case properties of None \<Rightarrow> [] | Some ps \<Rightarrow> ps),
               arg_timeout = timeout * 1000,
               arg_device_id = device_id,
               arg_output = (case invocation_output cmd of
                               None \<Rightarrow> ''json''
                             | Some out \<Rightarrow> if out = [] then ''json'' else out) \<rparr>])"
  using assms by (simp add: iot_central_monitor_events_def Let_def)

lemma monitor_events_rejects:
  assumes "timeout < 0"
  shows "\<exists>e. iot_central_monitor_events cmd app_id device_id consumer_group timeout repair_uamqp
               enqueued_time properties = (Inl e, [])"
  using assms by (simp add: iot_central_monitor_events_def split: sum.split)

lemma monitor_events_forwarded:
  assumes "Executor a \<in> set (snd (iot_central_monitor_events cmd app_id device_id consumer_group
             timeout repair_uamqp enqueued_time properties))"
  shows "0 \<le> timeout \<and> arg_timeout a = timeout * 1000 \<and>
         arg_enqueued_time a =
           (case enqueued_time of None \<Rightarrow> utcnow_ms cmd
            | Some t \<Rightarrow> if t = 0 then utcnow_ms cmd else t)"
  using assms
  by (auto simp: iot_central_monitor_events_def Let_def split: option.splits sum.splits if_splits)

lemma console_ok:
  "validate_min_python_version (version_info console) 3 5 None True = Inr True"
  "ensure_uamqp console = None"
  "get_event_hub_target_from_central_app_id console ''app'' = Inr ''eventhub-of-app''"
  by (simp_all add: console_def validate_min_python_version_def)

lemma watched_ok:
  "validate_min_python_version (version_info watched) 3 5 None True = Inr True"
  "ensure_uamqp watched = None"
  "get_event_hub_target_from_central_app_id watched ''app'' = Inr ''eventhub-of-app''"
  by (simp_all add: watched_def console_def validate_min_python_version_def)

text \<open>
  C8. \<^verbatim>\<open>iot_central_monitor_events\<close> with a negative timeout raises before it calls
  any collaborator (no dependency check, no target lookup, no executor). Whenever the
  executor is called the timeout was not negative and is forwarded multiplied by 1000,
  so seconds become milliseconds. With a supported interpreter and collaborators that
  answer, the executor is called for every timeout from 0 up. With the timeout 0 the
  executor is handed 0 milliseconds, and then the monitor never times out: it ends
  only when the caller cancels, and without a cancellation it never returns. With a
  timeout above 0 the monitor always ends.
\<close>

theorem monitor_events_timeout:
  "(timeout < 0 \<longrightarrow>
      (\<exists>e. iot_central_monitor_events cmd app_id device_id consumer_group timeout repair_uamqp
             enqueued_time properties = (Inl e, []))) \<and>
   (\<forall>a. Executor a \<in> set (snd (iot_central_monitor_events cmd app_id device_id consumer_group
             timeout repair_uamqp enqueued_time properties)) \<longrightarrow>
        0 \<le> timeout \<and> arg_timeout a = timeout * 1000) \<and>
   (0 \<le> timeout \<and>
    validate_min_python_version (version_info cmd) 3 5 None True = Inr True \<and>
    ensure_uamqp cmd = None \<and>
    get_event_hub_target_from_central_app_id cmd app_id = Inr target \<longrightarrow>
      (\<exists>a. iot_central_monitor_events cmd app_id device_id consumer_group timeout repair_uamqp
             enqueued_time properties =
               (Inr (executor a (monitor_events cmd)),
                [EnsureUamqp repair_uamqp, GetTarget app_id, Executor a]) \<and>
           arg_timeout a = timeout * 1000 \<and>
           (timeout = 0 \<longrightarrow>
              arg_timeout a = 0 \<and>
              (\<forall>n. executor a (monitor_events cmd) \<noteq> Some (n, TimedOut)) \<and>
              (executor a (monitor_events cmd) = None \<longleftrightarrow>
                 (\<forall>gap. Cancels gap \<notin> set (monitor_events cmd)))) \<and>
           (0 < timeout \<longrightarrow> executor a (monitor_events cmd) \<noteq> None)))"
proof (intro conjI impI allI)
  assume "timeout < 0"
  then show "\<exists>e. iot_central_monitor_events cmd app_id device_id consumer_group timeout
                  repair_uamqp enqueued_time properties = (Inl e, [])"
    by (rule monitor_events_rejects)
next
  fix a
  assume a: "Executor a \<in> set (snd (iot_central_monitor_events cmd app_id device_id
               consumer_group timeout repair_uamqp enqueued_time properties))"
  show "0 \<le> timeout" and "arg_timeout a = timeout * 1000"
    using monitor_events_forwarded [OF a] by simp_all
next
  assume ok: "0 \<le> timeout \<and>
    validate_min_python_version (version_info cmd) 3 5 None True = Inr True \<and>
    ensure_uamqp cmd = None \<and>
    get_event_hub_target_from_central_app_id cmd app_id = Inr target"
  define a where "a =
     \<lparr> arg_consumer_group = consumer_group,
       arg_enqueued_time =
         (case enqueued_time of
            None \<Rightarrow> utcnow_ms cmd
          | Some t \<Rightarrow> if t = 0 then utcnow_ms cmd else t),
       arg_central_target = target,
       arg_properties = (case properties of None \<Rightarrow> [] | Some ps \<Rightarrow> ps),
       arg_timeout = timeout * 1000,
       arg_device_id = device_id,
       arg_output = (case invocation_output cmd of
                       None \<Rightarrow> ''json''
                     | Some out \<Rightarrow> if out = [] then ''json'' else out) \<rparr>"
  have run: "iot_central_monitor_events cmd app_id device_id consumer_group timeout repair_uamqp
             enqueued_time properties =
               (Inr (executor a (monitor_events cmd)),
                [EnsureUamqp repair_uamqp, GetTarget app_id, Executor a])"
    unfolding a_def using ok by (intro monitor_events_runs) simp_all
  have t: "arg_timeout a = timeout * 1000" by (simp add: a_def)
  have zero: "arg_timeout a = 0 \<and>
              (\<forall>n. executor a (monitor_events cmd) \<noteq> Some (n, TimedOut)) \<and>
              (executor a (monitor_events cmd) = None \<longleftrightarrow>
                 (\<forall>gap. Cancels gap \<notin> set (monitor_events cmd)))"
    if "timeout = 0"
  proof -
    from that t have t0: "arg_timeout a = 0" by simp
    moreover have "\<forall>n. executor a (monitor_events cmd) \<noteq> Some (n, TimedOut)"
      using executor_never_times_out [OF t0] by fastforce
    moreover have "executor a (monitor_events cmd) = None \<longleftrightarrow>
                 (\<forall>gap. Cancels gap \<notin> set (monitor_events cmd))"
      using t0 by (rule executor_forever)
    ultimately show ?thesis by blast
  qed
  have pos: "executor a (monitor_events cmd) \<noteq> None" if "0 < timeout"
    using that t by (intro executor_ends) simp
  have zero': "timeout = 0 \<longrightarrow>
              arg_timeout a = 0 \<and>
              (\<forall>n. executor a (monitor_events cmd) \<noteq> Some (n, TimedOut)) \<and>
              (executor a (monitor_events cmd) = None \<longleftrightarrow>
                 (\<forall>gap. Cancels gap \<notin> set (monitor_events cmd)))"
    by (rule impI) (rule zero)
  have pos': "0 < timeout \<longrightarrow> executor a (monitor_events cmd) \<noteq> None"
    by (rule impI) (rule pos)
  show "\<exists>a. iot_central_monitor_events cmd app_id device_id consumer_group timeout repair_uamqp
             enqueued_time properties =
               (Inr (executor a (monitor_events cmd)),
                [EnsureUamqp repair_uamqp, GetTarget app_id, Executor a]) \<and>
           arg_timeout a = timeout * 1000 \<and>
           (timeout = 0 \<longrightarrow>
              arg_timeout a = 0 \<and>
              (\<forall>n. executor a (monitor_events cmd) \<noteq> Some (n, TimedOut)) \<and>
              (executor a (monitor_events cmd) = None \<longleftrightarrow>
                 (\<forall>gap. Cancels gap \<notin> set (monitor_events cmd)))) \<and>
           (0 < timeout \<longrightarrow> executor a (monitor_events cmd) \<noteq> None)"
    by (rule exI [of _ a]) (rule conjI run t zero' pos')+
qed

theorem monitor_events_timeout_witness:
  "(\<exists>e. iot_central_monitor_events console ''app'' None ''$Default'' (-1) False None None =
          (Inl e, [])) \<and>
   (\<exists>a. iot_central_monitor_events console ''app'' None ''$Default'' 0 False None None =
          (Inr None, [EnsureUamqp False, GetTarget ''app'', Executor a]) \<and> arg_timeout a = 0) \<and>
   (\<exists>a. iot_central_monitor_events console ''app'' None ''$Default'' 300 False None None =
          (Inr (Some (0, TimedOut)), [EnsureUamqp False, GetTarget ''app'', Executor a]) \<and>
        arg_timeout a = 300000) \<and>
   (\<exists>a. iot_central_monitor_events watched ''app'' None ''$Default'' 0 False None None =
          (Inr (Some (1, Cancelled)), [EnsureUamqp False, GetTarget ''app'', Executor a]) \<and>
        arg_timeout a = 0)"
proof (intro conjI)
  show "\<exists>e. iot_central_monitor_events console ''app'' None ''$Default'' (-1) False None None =
          (Inl e, [])"
    using monitor_events_timeout [of "-1" console "''app''" None "''$Default''" False None None]
    by simp
next
  have "\<exists>a. iot_central_monitor_events console ''app'' None ''$Default'' 0 False None None =
               (Inr (executor a (monitor_events console)),
                [EnsureUamqp False, GetTarget ''app'', Executor a]) \<and>
           arg_timeout a = 0 * 1000 \<and>
           ((0::int) = 0 \<longrightarrow>
              arg_timeout a = 0 \<and>
              (\<forall>n. executor a (monitor_events console) \<noteq> Some (n, TimedOut)) \<and>
              (executor a (monitor_events console) = None \<longleftrightarrow>
                 (\<forall>gap. Cancels gap \<notin> set (monitor_events console)))) \<and>
           ((0::int) < 0 \<longrightarrow> executor a (monitor_events console) \<noteq> None)"
    using monitor_events_timeout [of 0 console "''app''" None "''$Default''" False None None
                                   "''eventhub-of-app''", THEN conjunct2, THEN conjunct2]
      console_ok by (elim impE) (intro conjI, simp_all)
  then obtain a where a:
    "iot_central_monitor_events console ''app'' None ''$Default'' 0 False None None =
               (Inr (executor a (monitor_events console)),
                [EnsureUamqp False, GetTarget ''app'', Executor a])"
    "arg_timeout a = 0"
    "executor a (monitor_events console) = None \<longleftrightarrow>
                 (\<forall>gap. Cancels gap \<notin> set (monitor_events console))"
    by (elim exE conjE) simp
  have "monitor_events console = []" by (simp add: console_def)
  with a(3) have "executor a (monitor_events console) = None" by simp
  with a(1,2) show "\<exists>a. iot_central_monitor_events console ''app'' None ''$Default'' 0 False None None =
          (Inr None, [EnsureUamqp False, GetTarget ''app'', Executor a]) \<and> arg_timeout a = 0"
    by (intro exI [of _ a]) simp
next
  have "\<exists>a. iot_central_monitor_events console ''app'' None ''$Default'' 300 False None None =
               (Inr (executor a (monitor_events console)),
                [EnsureUamqp False, GetTarget ''app'', Executor a]) \<and>
           arg_timeout a = 300 * 1000 \<and>
           ((300::int) = 0 \<longrightarrow>
              arg_timeout a = 0 \<and>
              (\<forall>n. executor a (monitor_events console) \<noteq> Some (n, TimedOut)) \<and>
              (executor a (monitor_events console) = None \<longleftrightarrow>
                 (\<forall>gap. Cancels gap \<notin> set (monitor_events console)))) \<and>
           ((0::int) < 300 \<longrightarrow> executor a (monitor_events console) \<noteq> None)"
    using monitor_events_timeout [of 300 console "''app''" None "''$Default''" False None None
                                   "''eventhub-of-app''", THEN conjunct2, THEN conjunct2]
      console_ok by (elim impE) (intro conjI, simp_all)
  then obtain a where a:
    "iot_central_monitor_events console ''app'' None ''$Default'' 300 False None None =
               (Inr (executor a (monitor_events console)),
                [EnsureUamqp False, GetTarget ''app'', Executor a])"
    "arg_timeout a = 300000"
    by (elim exE conjE) simp
  have "monitor_events console = []" by (simp add: console_def)
  with a(2) have "executor a (monitor_events console) = Some (0, TimedOut)" by simp
  with a show "\<exists>a. iot_central_monitor_events console ''app'' None ''$Default'' 300 False None None =
          (Inr (Some (0, TimedOut)), [EnsureUamqp False, GetTarget ''app'', Executor a]) \<and>
        arg_timeout a = 300000"
    by (intro exI [of _ a]) simp
next
  have "\<exists>a. iot_central_monitor_events watched ''app'' None ''$Default'' 0 False None None =
               (Inr (executor a (monitor_events watched)),
                [EnsureUamqp False, GetTarget ''app'', Executor a]) \<and>
           arg_timeout a = 0 * 1000 \<and>
           ((0::int) = 0 \<longrightarrow>
              arg_timeout a = 0 \<and>
              (\<forall>n. executor a (monitor_events watched) \<noteq> Some (n, TimedOut)) \<and>
              (executor a (monitor_events watched) = None \<longleftrightarrow>
                 (\<forall>gap. Cancels gap \<notin> set (monitor_events watched)))) \<and>
           ((0::int) < 0 \<longrightarrow> executor a (monitor_events watched) \<noteq> None)"
    using monitor_events_timeout [of 0 watched "''app''" None "''$Default''" False None None
                                   "''eventhub-of-app''", THEN conjunct2, THEN conjunct2]
      watched_ok by (elim impE) (intro conjI, simp_all)
  then obtain a where a:
    "iot_central_monitor_events watched ''app'' None ''$Default'' 0 False None None =
               (Inr (executor a (monitor_events watched)),
                [EnsureUamqp False, GetTarget ''app'', Executor a])"
    "arg_timeout a = 0"
    by (elim exE conjE) simp
  have "monitor_events watched = [Arrives 500, Cancels 60000]" by (simp add: watched_def)
  with a(2) have "executor a (monitor_events watched) = Some (1, Cancelled)" by simp
  with a show "\<exists>a. iot_central_monitor_events watched ''app'' None ''$Default'' 0 False None None =
          (Inr (Some (1, Cancelled)), [EnsureUamqp False, GetTarget ''app'', Executor a]) \<and>
        arg_timeout a = 0"
    by (intro exI [of _ a]) simp
qed

text \<open>
  C10. With a supported interpreter, a timeout that is not negative and collaborators
  that answer, the executor is called, and the start time it receives is this: an
  absent \<open>enqueued_time\<close> and the value 0 are both replaced by the clock's milliseconds
  since the epoch; any other value is forwarded unchanged. No call of the executor
  receives anything else, so the executor is handed the start time 0 only when the
  clock itself reads 0.
\<close>

theorem monitor_events_enqueued_time:
  "(0 \<le> timeout \<and>
    validate_min_python_version (version_info cmd) 3 5 None True = Inr True \<and>
    ensure_uamqp cmd = None \<and>
    get_event_hub_target_from_central_app_id cmd app_id = Inr target \<longrightarrow>
      (\<exists>a. iot_central_monitor_events cmd app_id device_id consumer_group timeout repair_uamqp
             enqueued_time properties =
               (Inr (executor a (monitor_events cmd)),
                [EnsureUamqp repair_uamqp, GetTarget app_id, Executor a]) \<and>
           ((enqueued_time = None \<or> enqueued_time = Some 0) \<longrightarrow>
              arg_enqueued_time a = utcnow_ms cmd) \<and>
           (\<forall>t. enqueued_time = Some t \<and> t \<noteq> 0 \<longrightarrow> arg_enqueued_time a = t))) \<and>
   (\<forall>a. Executor a \<in> set (snd (iot_central_monitor_events cmd app_id device_id consumer_group
             timeout repair_uamqp enqueued_time properties)) \<longrightarrow>
        ((enqueued_time = None \<or> enqueued_time = Some 0) \<longrightarrow> arg_enqueued_time a = utcnow_ms cmd) \<and>
        (\<forall>t. enqueued_time = Some t \<and> t \<noteq> 0 \<longrightarrow> arg_enqueued_time a = t) \<and>
        (arg_enqueued_time a = 0 \<longrightarrow> utcnow_ms cmd = 0))"
proof (intro conjI impI allI)
  assume ok: "0 \<le> timeout \<and>
    validate_min_python_version (version_info cmd) 3 5 None True = Inr True \<and>
    ensure_uamqp cmd = None \<and>
    get_event_hub_target_from_central_app_id cmd app_id = Inr target"
  define a where "a =
     \<lparr> arg_consumer_group = consumer_group,
       arg_enqueued_time =
         (case enqueued_time of
            None \<Rightarrow> utcnow_ms cmd
          | Some t \<Rightarrow> if t = 0 then utcnow_ms cmd else t),
       arg_central_target = target,
       arg_properties = (case properties of None \<Rightarrow> [] | Some ps \<Rightarrow> ps),
       arg_timeout = timeout * 1000,
       arg_device_id = device_id,
       arg_output = (case invocation_output cmd of
                       None \<Rightarrow> ''json''
                     | Some out \<Rightarrow> if out = [] then ''json'' else out) \<rparr>"
  have run: "iot_central_monitor_events cmd app_id device_id consumer_group timeout repair_uamqp
             enqueued_time properties =
               (Inr (executor a (monitor_events cmd)),
                [EnsureUamqp repair_uamqp, GetTarget app_id, Executor a])"
    unfolding a_def using ok by (intro monitor_events_runs) simp_all
  have absent: "(enqueued_time = None \<or> enqueued_time = Some 0) \<longrightarrow> arg_enqueued_time a = utcnow_ms cmd"
    by (auto simp: a_def)
  have given: "\<forall>t. enqueued_time = Some t \<and> t \<noteq> 0 \<longrightarrow> arg_enqueued_time a = t"
    by (auto simp: a_def)
  show "\<exists>a. iot_central_monitor_events cmd app_id device_id consumer_group timeout
             repair_uamqp enqueued_time properties =
               (Inr (executor a (monitor_events cmd)),
                [EnsureUamqp repair_uamqp, GetTarget app_id, Executor a]) \<and>
           ((enqueued_time = None \<or> enqueued_time = Some 0) \<longrightarrow>
              arg_enqueued_time a = utcnow_ms cmd) \<and>
           (\<forall>t. enqueued_time = Some t \<and> t \<noteq> 0 \<longrightarrow> arg_enqueued_time a = t)"
    by (rule exI [of _ a]) (rule conjI run absent given)+
next
  fix a
  assume a: "Executor a \<in> set (snd (iot_central_monitor_events cmd app_id device_id
               consumer_group timeout repair_uamqp enqueued_time properties))"
  have fwd: "arg_enqueued_time a =
           (case enqueued_time of None \<Rightarrow> utcnow_ms cmd
            | Some t \<Rightarrow> if t = 0 then utcnow_ms cmd else t)"
    using monitor_events_forwarded [OF a] by simp
  show "arg_enqueued_time a = utcnow_ms cmd" if "enqueued_time = None \<or> enqueued_time = Some 0"
    using that fwd by auto
  show "arg_enqueued_time a = t" if "enqueued_time = Some t \<and> t \<noteq> 0" for t
    using that fwd by auto
  show "utcnow_ms cmd = 0" if "arg_enqueued_time a = 0"
    using that fwd by (auto split: option.splits if_splits)
qed

theorem monitor_events_enqueued_time_witness:
  "(\<exists>a. iot_central_monitor_events console ''app'' None ''$Default'' 300 False (Some 0) None =
          (Inr (Some (0, TimedOut)), [EnsureUamqp False, GetTarget ''app'', Executor a]) \<and>
        arg_enqueued_time a = 1700000000000) \<and>
   (\<exists>a. iot_central_monitor_events console ''app'' None ''$Default'' 300 False None None =
          (Inr (Some (0, TimedOut)), [EnsureUamqp False, GetTarget ''app'', Executor a]) \<and>
        arg_enqueued_time a = 1700000000000) \<and>
   (\<exists>a. iot_central_monitor_events console ''app'' None ''$Default'' 300 False (Some 42) None =
          (Inr (Some (0, TimedOut)), [EnsureUamqp False, GetTarget ''app'', Executor a]) \<and>
        arg_enqueued_time a = 42)"
  using monitor_events_enqueued_time
          [of 300 console "''app''" "''eventhub-of-app''" None "''$Default''" False "Some 0" None]
        monitor_events_enqueued_time
          [of 300 console "''app''" "''eventhub-of-app''" None "''$Default''" False None None]
        monitor_events_enqueued_time
          [of 300 console "''app''" "''eventhub-of-app''" None "''$Default''" False "Some 42" None]
  by (simp add: console_def iot_central_monitor_events_def validate_min_python_version_def)

end
